theory Spec2Isabelle
  imports Main "HOL-Library.Multiset"
begin

section \<open>Go values seen through reflection\<close>

text \<open>
  The library receives its records as \<open>interface{}\<close> and inspects them with package
  \<open>reflect\<close>. A field value is a string, another scalar, or a struct, a non-nil pointer
  to a struct or a nil pointer to a struct type, each given with the fields of the struct
  (for a nil pointer: the fields of the type). A struct field is given as reflection
  shows it: its Go name (for an embedded field the name of its type), the result of
  \<open>Tag.Get("firestore")\<close>, whether its name is exported, whether it is embedded, and
  its value.
\<close>

datatype gvalue =
    VString string
  | VInt int
  | VBool bool
  | VNil
  | VStruct "sfield list"
  | VPtrStruct "sfield list"
  | VNilPtrStruct "sfield list"
and sfield =
    SField (fname: string) (ftag: string) (fexported: bool) (fembedded: bool) (fval: gvalue)

definition set_fval :: "sfield \<Rightarrow> gvalue \<Rightarrow> sfield" where
  "set_fval f v = SField (fname f) (ftag f) (fexported f) (fembedded f) v"

text \<open>
  What \<open>MethodByName("CollectionName")\<close> finds on a type: no method with no argument
  and one result of kind string; such a method whose result is a \<open>string\<close>, with the
  string it returns; or such a method whose result is of a named string type, which the
  assertion \<open>.(string)\<close> rejects.
\<close>

datatype cmethod = NoMethod | StringMethod string | NamedStringMethod

text \<open>
  A struct type: its name (\<open>t.Name()\<close>), its method \<open>CollectionName\<close>, and the
  fields of its zero value (\<open>reflect.New(t).Elem()\<close>).
\<close>

record stype =
  type_name :: string
  collection_method :: cmethod
  zero_fields :: "sfield list"

text \<open>
  What a caller can pass as \<open>model interface{}\<close>: a struct by value (not addressable),
  a non-nil pointer to a struct, a typed nil pointer to a struct, a non-nil pointer to
  anything that is not a struct, a nil pointer to anything that is not a struct, any
  other value that is not a struct, or the nil interface.
\<close>

datatype go_model =
    Struct stype "sfield list"
  | PtrStruct stype "sfield list"
  | NilPtrStruct stype
  | PtrNonStruct
  | NilPtrNonStruct
  | NonStruct
  | NilInterface

text \<open>
  A call ends in a panic or in an error value; both carry their message. Where a message
  of package \<open>reflect\<close> goes on with the kind or the type name of the value at hand,
  which the model does not carry, the message stops before it.
\<close>

datatype failure = Panic string | Err string

text \<open>
  \<open>v := reflect.ValueOf(model); if v.Kind() == reflect.Ptr { v = v.Elem() }\<close>: a struct
  with its fields, addressable when it was reached through the pointer; the zero
  \<open>Value\<close> (from the nil interface or a nil pointer); or a value of another kind.
\<close>

datatype rvalue = RStruct bool "sfield list" | RZero | ROther

definition indirect :: "go_model \<Rightarrow> rvalue" where
  "indirect model =
     (case model of
        Struct t fs \<Rightarrow> RStruct False fs
      | PtrStruct t fs \<Rightarrow> RStruct True fs
      | NilPtrStruct t \<Rightarrow> RZero
      | PtrNonStruct \<Rightarrow> ROther
      | NilPtrNonStruct \<Rightarrow> RZero
      | NonStruct \<Rightarrow> ROther
      | NilInterface \<Rightarrow> RZero)"

section \<open>Field lookup by name, as package reflect does it\<close>

text \<open>
  \<open>FieldByName\<close> looks at the fields declared in the struct first and then, level by
  level, at the fields of its embedded structs (embedded by value or by pointer). A
  field under scan carries two marks: whether the way to it went through a pointer (so
  that it is addressable whatever the struct was), and whether it went through a nil
  pointer (so that reading it panics).
\<close>

type_synonym scan = "bool \<times> bool \<times> sfield"

definition scan_field :: "scan \<Rightarrow> sfield" where
  "scan_field x = snd (snd x)"

definition embedded_fields :: "scan \<Rightarrow> scan list" where
  "embedded_fields x =
     (case x of (p, z, f) \<Rightarrow>
        if fembedded f
        then (case fval f of
                VStruct ms \<Rightarrow> map (\<lambda>g. (p, z, g)) ms
              | VPtrStruct ms \<Rightarrow> map (\<lambda>g. (True, z, g)) ms
              | VNilPtrStruct ms \<Rightarrow> map (\<lambda>g. (True, True, g)) ms
              | _ \<Rightarrow> [])
        else [])"

definition next_level :: "scan list \<Rightarrow> scan list" where
  "next_level level = concat (map embedded_fields level)"

text \<open>
  The result of a lookup: nothing, or the field with its depth and its two marks. A name
  that occurs more than once on the first level that has it is ambiguous and counts as
  not found.
\<close>

datatype lookup = NotFound | Found sfield nat bool bool

definition scan_size :: "scan list \<Rightarrow> nat" where
  "scan_size level = sum_list (map (\<lambda>x. size (scan_field x)) level)"

function scan_levels :: "string \<Rightarrow> nat \<Rightarrow> scan list \<Rightarrow> lookup" where
  "scan_levels n d level =
     (if level = [] then NotFound
      else (case filter (\<lambda>x. fname (scan_field x) = n) level of
              [] \<Rightarrow> scan_levels n (Suc d) (next_level level)
            | [x] \<Rightarrow> Found (scan_field x) d (fst x) (fst (snd x))
            | _ \<Rightarrow> NotFound))"
  by pat_completeness auto

termination scan_levels
proof (relation "measure (\<lambda>(n, d, level). scan_size level)")
  show "wf (measure (\<lambda>(n, d, level). scan_size level))" by simp
next
  fix n :: string and d :: nat and level :: "scan list"
  have one: "scan_size (embedded_fields x) < size (scan_field x)" for x
  proof -
    obtain p z f where x: "x = (p, z, f)" by (cases x)
    obtain a b c e v where f: "f = SField a b c e v" by (cases f)
    show ?thesis
      by (cases v) (simp_all add: x f embedded_fields_def scan_size_def scan_field_def comp_def
          size_list_conv_sum_list)
  qed
  have smaller: "xs \<noteq> [] \<Longrightarrow> scan_size (next_level xs) < scan_size xs" for xs
  proof (induction xs)
    case Nil
    then show ?case by simp
  next
    case (Cons x xs)
    have h: "scan_size (next_level (x # xs)) =
        scan_size (embedded_fields x) + scan_size (next_level xs)"
      by (simp add: next_level_def scan_size_def)
    have t: "scan_size (next_level xs) \<le> scan_size xs"
      using Cons.IH by (cases xs) (simp_all add: next_level_def scan_size_def less_imp_le)
    have "scan_size (x # xs) = size (scan_field x) + scan_size xs" by (simp add: scan_size_def)
    then show ?case using h t one[of x] by linarith
  qed
  assume "level \<noteq> []"
  then show "((n, Suc d, next_level level), (n, d, level)) \<in> measure (\<lambda>(n, d, level). scan_size level)"
    by (simp add: smaller)
qed

declare scan_levels.simps [simp del]

text \<open>
  \<open>FieldByName\<close>: a field declared in the struct itself wins; otherwise the levels of
  the embedded structs are scanned.
\<close>

definition FieldByName :: "string \<Rightarrow> sfield list \<Rightarrow> lookup" where
  "FieldByName n fs =
     (case find (\<lambda>f. fname f = n) fs of
        Some f \<Rightarrow> Found f 0 False False
      | None \<Rightarrow> scan_levels n 1 (next_level (map (\<lambda>f. (False, False, f)) fs)))"

section \<open>Record adapter: SetIDField, GetID, StructToMap\<close>

fun is_string :: "gvalue \<Rightarrow> bool" where
  "is_string (VString s) = True"
| "is_string v = False"

fun SetString :: "string \<Rightarrow> string \<Rightarrow> sfield list \<Rightarrow> sfield list" where
  "SetString n s [] = []"
| "SetString n s (f # fs) =
     (if fname f = n then set_fval f (VString s) # fs else f # SetString n s fs)"

text \<open>
  Writing the string into the field that the lookup found at depth \<open>d\<close>: at depth 0 it
  is the field of that name; deeper, the write goes through the embedded structs that
  are there (a nil pointer has none), down to that depth, where the lookup found the
  name exactly once.
\<close>

fun set_at_depth :: "nat \<Rightarrow> string \<Rightarrow> string \<Rightarrow> sfield list \<Rightarrow> sfield list" where
  "set_at_depth 0 n s fs = SetString n s fs"
| "set_at_depth (Suc d) n s fs =
     map (\<lambda>f. if fembedded f
              then (case fval f of
                      VStruct ms \<Rightarrow> set_fval f (VStruct (set_at_depth d n s ms))
                    | VPtrStruct ms \<Rightarrow> set_fval f (VPtrStruct (set_at_depth d n s ms))
                    | _ \<Rightarrow> f)
              else f) fs"

text \<open>
  What a write at depth \<open>Suc d\<close> does to one field of the struct, and to a field under
  scan: a field beyond a nil pointer is never reached.
\<close>

definition set_inside :: "nat \<Rightarrow> string \<Rightarrow> string \<Rightarrow> sfield \<Rightarrow> sfield" where
  "set_inside d n s f =
     (if fembedded f
      then (case fval f of
              VStruct ms \<Rightarrow> set_fval f (VStruct (set_at_depth d n s ms))
            | VPtrStruct ms \<Rightarrow> set_fval f (VPtrStruct (set_at_depth d n s ms))
            | _ \<Rightarrow> f)
      else f)"

definition scan_set_inside :: "nat \<Rightarrow> string \<Rightarrow> string \<Rightarrow> scan \<Rightarrow> scan" where
  "scan_set_inside d n s x =
     (case x of (p, z, f) \<Rightarrow> if z then (p, z, f) else (p, z, set_inside d n s f))"

text \<open>
  \<open>SetIDField\<close>: \<open>v.FieldByName\<close> panics unless \<open>v\<close> is a struct, and when the way to
  the field goes through a nil embedded pointer; the field is set only when it is valid,
  settable (addressable: the record was passed by pointer or the way to the field went
  through a pointer; and its name is exported) and of kind string. The result is the
  record as the caller sees it afterwards.
\<close>

definition set_id_fields :: "bool \<Rightarrow> sfield list \<Rightarrow> string \<Rightarrow> failure + sfield list" where
  "set_id_fields addressable fs ident =
     (case FieldByName ''ID'' fs of
        NotFound \<Rightarrow> Inr fs
      | Found f d p z \<Rightarrow>
          if z then Inl (Panic ''reflect: indirection through nil pointer to embedded struct field '')
          else if (addressable \<or> p) \<and> fexported f \<and> is_string (fval f)
          then Inr (set_at_depth d ''ID'' ident fs)
          else Inr fs)"

definition SetIDField :: "go_model \<Rightarrow> string \<Rightarrow> failure + go_model" where
  "SetIDField model ident =
     (case model of
        Struct t fs \<Rightarrow> map_sum id (Struct t) (set_id_fields False fs ident)
      | PtrStruct t fs \<Rightarrow> map_sum id (PtrStruct t) (set_id_fields True fs ident)
      | NilPtrStruct t \<Rightarrow> Inl (Panic ''reflect: call of reflect.Value.FieldByName on zero Value'')
      | NilPtrNonStruct \<Rightarrow> Inl (Panic ''reflect: call of reflect.Value.FieldByName on zero Value'')
      | NilInterface \<Rightarrow> Inl (Panic ''reflect: call of reflect.Value.FieldByName on zero Value'')
      | PtrNonStruct \<Rightarrow> Inl (Panic ''reflect: call of reflect.Value.FieldByName on '')
      | NonStruct \<Rightarrow> Inl (Panic ''reflect: call of reflect.Value.FieldByName on ''))"

fun field_String :: "gvalue \<Rightarrow> string" where
  "field_String (VString s) = s"
| "field_String v = []"

definition struct_ID :: "sfield list \<Rightarrow> failure + string" where
  "struct_ID fs =
     (case FieldByName ''ID'' fs of
        NotFound \<Rightarrow> Inr []
      | Found f d p z \<Rightarrow>
          if z then Inl (Panic ''reflect: indirection through nil pointer to embedded struct field '')
          else if is_string (fval f) then Inr (field_String (fval f))
          else Inr [])"

text \<open>\<open>GetID\<close> (db.go): the string in the field \<open>ID\<close>, or the empty string.\<close>

definition GetID :: "go_model \<Rightarrow> failure + string" where
  "GetID model =
     (case indirect model of
        RStruct a fs \<Rightarrow> struct_ID fs
      | RZero \<Rightarrow> Inl (Panic ''reflect: call of reflect.Value.FieldByName on zero Value'')
      | ROther \<Rightarrow> Inl (Panic ''reflect: call of reflect.Value.FieldByName on ''))"

text \<open>
  \<open>StructToMap\<close>: the loop over \<open>t.Field(i)\<close>, the fields declared in the struct itself,
  in declaration order; the fields of an embedded struct are not visited. A field whose
  tag is empty or \<open>-\<close> is skipped; \<open>fieldVal.Interface()\<close> panics on a field whose name
  is not exported; a later field overwrites an earlier one stored under the same tag.
\<close>

definition annotated :: "sfield \<Rightarrow> bool" where
  "annotated f \<longleftrightarrow> ftag f \<noteq> [] \<and> ftag f \<noteq> ''-''"

fun struct_fields_to_map ::
  "sfield list \<Rightarrow> (string \<rightharpoonup> gvalue) \<Rightarrow> failure + (string \<rightharpoonup> gvalue)" where
  "struct_fields_to_map [] data = Inr data"
| "struct_fields_to_map (f # fs) data =
     (if ftag f = [] \<or> ftag f = ''-'' then struct_fields_to_map fs data
      else if \<not> fexported f
      then Inl (Panic ''reflect.Value.Interface: cannot return value obtained from unexported field or method'')
      else struct_fields_to_map fs (data(ftag f \<mapsto> fval f)))"

definition StructToMap :: "go_model \<Rightarrow> failure + (string \<rightharpoonup> gvalue)" where
  "StructToMap model =
     (case indirect model of
        RStruct a fs \<Rightarrow> struct_fields_to_map fs Map.empty
      | RZero \<Rightarrow> Inl (Panic ''reflect: call of reflect.Value.Type on zero Value'')
      | ROther \<Rightarrow> Inl (Panic ''reflect: NumField of non-struct type ''))"

text \<open>
  The mapping as the specification words it: the annotated, non-ignored fields, each
  under its annotation, with the identifier field left out.
\<close>

definition spec_ToFieldMapping :: "sfield list \<Rightarrow> (string \<rightharpoonup> gvalue)" where
  "spec_ToFieldMapping fs =
     map_of (map (\<lambda>f. (ftag f, fval f)) (filter (\<lambda>f. annotated f \<and> fname f \<noteq> ''ID'') fs))"

text \<open>The round trip of the identifier, as the specification words it.\<close>

definition id_round_trip :: "go_model \<Rightarrow> string \<Rightarrow> bool" where
  "id_round_trip R ident =
     (case SetIDField R ident of Inl e \<Rightarrow> False | Inr R' \<Rightarrow> GetID R' = Inr ident)"

text \<open>
  The lookup of \<open>ID\<close> ends in a string field that can be set: \<open>addressable\<close> says
  whether the struct itself is addressable.
\<close>

definition settable_string_ID :: "bool \<Rightarrow> sfield list \<Rightarrow> bool" where
  "settable_string_ID addressable fs =
     (case FieldByName ''ID'' fs of
        NotFound \<Rightarrow> False
      | Found f d p z \<Rightarrow> \<not> z \<and> (addressable \<or> p) \<and> fexported f \<and> is_string (fval f))"

text \<open>The lookup of \<open>ID\<close> does not go through a nil embedded pointer.\<close>

definition ID_lookup_safe :: "sfield list \<Rightarrow> bool" where
  "ID_lookup_safe fs =
     (case FieldByName ''ID'' fs of NotFound \<Rightarrow> True | Found f d p z \<Rightarrow> \<not> z)"

text \<open>
  Example types: the \<open>User\<close> of the tests, the \<open>Example\<close> of the example program, a
  type without an identifier, and a type whose identifier is promoted from an embedded
  struct (\<open>type tbase struct { ID string `firestore:"id"` }\<close>,
  \<open>type Account struct { tbase; Name string `firestore:"name"` }\<close>).
\<close>

definition User_fields :: "string \<Rightarrow> string \<Rightarrow> string \<Rightarrow> int \<Rightarrow> sfield list" where
  "User_fields i n e a =
     [SField ''ID'' ''-'' True False (VString i),
      SField ''Name'' ''name'' True False (VString n),
      SField ''Email'' ''email'' True False (VString e),
      SField ''Age'' ''age'' True False (VInt a)]"

definition User_type :: stype where
  "User_type = \<lparr>type_name = ''User'', collection_method = NoMethod,
                zero_fields = User_fields [] [] [] 0\<rparr>"

definition Example_fields :: "string \<Rightarrow> string \<Rightarrow> string \<Rightarrow> sfield list" where
  "Example_fields i n e =
     [SField ''ID'' ''id'' True False (VString i),
      SField ''Name'' ''name'' True False (VString n),
      SField ''Email'' ''email'' True False (VString e)]"

definition Example_type :: stype where
  "Example_type = \<lparr>type_name = ''Example'', collection_method = NoMethod,
                   zero_fields = Example_fields [] [] []\<rparr>"

definition Item_fields :: "string \<Rightarrow> int \<Rightarrow> sfield list" where
  "Item_fields n p =
     [SField ''Name'' ''name'' True False (VString n),
      SField ''Price'' ''price'' True False (VInt p)]"

definition Item_type :: stype where
  "Item_type = \<lparr>type_name = ''Item'', collection_method = NoMethod, zero_fields = Item_fields [] 0\<rparr>"

definition Account_fields :: "string \<Rightarrow> string \<Rightarrow> sfield list" where
  "Account_fields i n =
     [SField ''tbase'' [] False True (VStruct [SField ''ID'' ''id'' True False (VString i)]),
      SField ''Name'' ''name'' True False (VString n)]"

definition Account_type :: stype where
  "Account_type = \<lparr>type_name = ''Account'', collection_method = NoMethod,
                   zero_fields = Account_fields [] []\<rparr>"

section \<open>Connection (connection.go)\<close>

text \<open>
  A connection holds the client handle and the transaction handle, \<open>None\<close> for nil.
  Only connections with a bound client are modelled (\<open>Validate\<close> rejects the others).
\<close>

record connection =
  client :: nat
  transaction :: "nat option"

definition NewConnection :: "nat \<Rightarrow> nat option list \<Rightarrow> connection" where
  "NewConnection c txs =
     (case txs of
        [] \<Rightarrow> \<lparr>client = c, transaction = None\<rparr>
      | tx # rest \<Rightarrow> \<lparr>client = c, transaction = tx\<rparr>)"

definition HasTransaction :: "connection \<Rightarrow> bool" where
  "HasTransaction c \<longleftrightarrow> transaction c \<noteq> None"

section \<open>The orchestrator and its builders (db.go)\<close>

text \<open>
  \<open>modelVal\<close> is \<open>reflect.New(t)\<close>, a pointer to a zero value of the bound type; only
  its method set is read, so it is kept as the type. \<open>None\<close> is the zero
  \<open>reflect.Value\<close>.
\<close>

record dbOptions =
  conn :: connection
  modelType :: "stype option"
  modelVal :: "stype option"
  updateBatchSize :: int

text \<open>
  \<open>*DB\<close> values are references into a heap of instances, so that returning the
  receiver and returning a fresh instance differ. A reference outside the heap stands for
  nil.
\<close>

type_synonym db_heap = "dbOptions list"

type_synonym db_ref = nat

definition deref :: "db_heap \<Rightarrow> db_ref \<Rightarrow> failure + dbOptions" where
  "deref h p =
     (if p < length h then Inr (h ! p)
      else Inl (Panic ''runtime error: invalid memory address or nil pointer dereference''))"

definition New :: "db_heap \<Rightarrow> connection \<Rightarrow> db_heap \<times> db_ref" where
  "New h c =
     (h @ [\<lparr>conn = c, modelType = None, modelVal = None, updateBatchSize = 100\<rparr>], length h)"

text \<open>
  \<open>SetUpdateBatchSize\<close> allocates \<open>newInstance\<close>, stores the size in it and returns
  \<open>db\<close>, the receiver.
\<close>

definition SetUpdateBatchSize :: "db_heap \<Rightarrow> db_ref \<Rightarrow> int \<Rightarrow> failure + (db_heap \<times> db_ref)" where
  "SetUpdateBatchSize h db sz =
     (case deref h db of
        Inl e \<Rightarrow> Inl e
      | Inr opts \<Rightarrow> Inr (h @ [opts\<lparr>updateBatchSize := sz\<rparr>], db))"

definition GetUpdateBatchSize :: "db_heap \<Rightarrow> db_ref \<Rightarrow> failure + int" where
  "GetUpdateBatchSize h db = map_sum id updateBatchSize (deref h db)"

definition GetModelType :: "db_heap \<Rightarrow> db_ref \<Rightarrow> failure + stype option" where
  "GetModelType h db = map_sum id modelType (deref h db)"

definition SetConnection :: "db_heap \<Rightarrow> db_ref \<Rightarrow> connection \<Rightarrow> failure + (db_heap \<times> db_ref)" where
  "SetConnection h db c =
     (case deref h db of
        Inl e \<Rightarrow> Inl e
      | Inr opts \<Rightarrow> Inr (h[db := opts\<lparr>conn := c\<rparr>], db))"

definition WithConnection :: "db_heap \<Rightarrow> db_ref \<Rightarrow> connection \<Rightarrow> failure + (db_heap \<times> db_ref)" where
  "WithConnection h db c =
     (case deref h db of
        Inl e \<Rightarrow> Inl e
      | Inr opts \<Rightarrow> SetConnection (h @ [opts]) (length h) c)"

definition WithTransaction :: "db_heap \<Rightarrow> db_ref \<Rightarrow> nat option \<Rightarrow> failure + (db_heap \<times> db_ref)" where
  "WithTransaction h db tx =
     (case deref h db of
        Inl e \<Rightarrow> Inl e
      | Inr opts \<Rightarrow>
          SetConnection (h @ [opts]) (length h) (NewConnection (client (conn opts)) [tx]))"

text \<open>
  The type of a value, as far as \<open>Model\<close> looks at it: a struct type, a pointer type
  with its element type, or another type. The nil interface has none
  (\<open>reflect.ValueOf(nil)\<close> is the zero \<open>Value\<close>).
\<close>

datatype gtype = TStruct stype | TPtr gtype | TOther

definition value_type :: "go_model \<Rightarrow> gtype option" where
  "value_type model =
     (case model of
        Struct t fs \<Rightarrow> Some (TStruct t)
      | PtrStruct t fs \<Rightarrow> Some (TPtr (TStruct t))
      | NilPtrStruct t \<Rightarrow> Some (TPtr (TStruct t))
      | PtrNonStruct \<Rightarrow> Some (TPtr TOther)
      | NilPtrNonStruct \<Rightarrow> Some (TPtr TOther)
      | NonStruct \<Rightarrow> Some TOther
      | NilInterface \<Rightarrow> None)"

text \<open>
  \<open>Model\<close>: \<open>v.Type()\<close> panics on the zero \<open>Value\<close>; a pointer type is replaced by
  its element type; anything but a struct type then panics; otherwise a fresh instance
  is allocated with that type bound.
\<close>

definition Model :: "db_heap \<Rightarrow> db_ref \<Rightarrow> go_model \<Rightarrow> failure + (db_heap \<times> db_ref)" where
  "Model h db model =
     (case value_type model of
        None \<Rightarrow> Inl (Panic ''reflect: call of reflect.Value.Type on zero Value'')
      | Some t0 \<Rightarrow>
          (case (case t0 of TPtr elem \<Rightarrow> elem | _ \<Rightarrow> t0) of
             TStruct t \<Rightarrow>
               (case deref h db of
                  Inl e \<Rightarrow> Inl e
                | Inr opts \<Rightarrow>
                    Inr (h @ [opts\<lparr>modelType := Some t, modelVal := Some t\<rparr>], length h))
           | _ \<Rightarrow> Inl (Panic ''model must be a struct or pointer to a struct'')))"

text \<open>The struct type of a record: of a struct, or of a pointer to a struct.\<close>

definition struct_type_of :: "go_model \<Rightarrow> stype option" where
  "struct_type_of model =
     (case model of
        Struct t fs \<Rightarrow> Some t
      | PtrStruct t fs \<Rightarrow> Some t
      | NilPtrStruct t \<Rightarrow> Some t
      | _ \<Rightarrow> None)"

text \<open>
  \<open>strings.ToLower\<close> on the letters A to Z; type names are taken to be ASCII.
\<close>

definition to_lower :: "char \<Rightarrow> char" where
  "to_lower c =
     (let n = (of_char c :: nat) in if 65 \<le> n \<and> n \<le> 90 then char_of (n + 32) else c)"

definition CollectionName :: "dbOptions \<Rightarrow> failure + string" where
  "CollectionName d =
     (case modelType d of
        None \<Rightarrow> Inl (Err ''no model set'')
      | Some t \<Rightarrow>
          (case modelVal d of
             None \<Rightarrow> Inl (Panic ''reflect: call of reflect.Value.MethodByName on zero Value'')
           | Some tv \<Rightarrow>
               (case collection_method tv of
                  StringMethod s \<Rightarrow> Inr s
                | NamedStringMethod \<Rightarrow>
                    Inl (Err ''CollectionName method does not return a string'')
                | NoMethod \<Rightarrow> Inr (map to_lower (type_name t) @ ''s''))))"

section \<open>Query specifications (query.go) and the query builder\<close>

definition QueryLimitMax :: int where
  "QueryLimitMax = 10000"

definition QueryLimitUnlimited :: int where
  "QueryLimitUnlimited = - 1"

datatype direction = Asc | Desc

text \<open>
  A \<open>ValueProvider\<close> is nil (\<open>None\<close>) or an object whose \<open>GetValue\<close> fails with a
  message (\<open>Inl\<close>) or yields a value (\<open>Inr\<close>).
\<close>

record WhereClause =
  wField :: string
  wOperator :: string
  wValue :: gvalue
  wValueProvider :: "(string + gvalue) option"

record OrderClause =
  oField :: string
  oDirection :: direction

record Query =
  qWhere :: "WhereClause list"
  qOrderBy :: "OrderClause list"
  qLimit :: int

text \<open>A document snapshot: the identifier of its reference and its data.\<close>

record doc =
  doc_id :: string
  doc_fields :: "(string \<times> gvalue) list"

text \<open>
  A \<open>firestore.Query\<close> is an immutable builder value: the collection it started from
  and the clauses added to it, in the order of the calls.
\<close>

datatype qop =
    OpWhere string string gvalue
  | OpOrderBy string direction
  | OpLimit int
  | OpStartAfter doc

record fs_query =
  q_collection :: string
  q_ops :: "qop list"

definition add_op :: "fs_query \<Rightarrow> qop \<Rightarrow> fs_query" where
  "add_op q x = q\<lparr>q_ops := q_ops q @ [x]\<rparr>"

definition collection_query :: "string \<Rightarrow> fs_query" where
  "collection_query c = \<lparr>q_collection = c, q_ops = []\<rparr>"

fun apply_where :: "fs_query \<Rightarrow> WhereClause list \<Rightarrow> fs_query \<times> failure option" where
  "apply_where q [] = (q, None)"
| "apply_where q (w # ws) =
     (case wValueProvider w of
        None \<Rightarrow> apply_where (add_op q (OpWhere (wField w) (wOperator w) (wValue w))) ws
      | Some (Inl e) \<Rightarrow>
          (q, Some (Err (''failed to get value for field '' @ wField w @ '': '' @ e)))
      | Some (Inr v) \<Rightarrow> apply_where (add_op q (OpWhere (wField w) (wOperator w) v)) ws)"

fun apply_order :: "fs_query \<Rightarrow> OrderClause list \<Rightarrow> fs_query" where
  "apply_order q [] = q"
| "apply_order q (o1 # os) = apply_order (add_op q (OpOrderBy (oField o1) (oDirection o1))) os"

definition apply_limit :: "fs_query \<Rightarrow> int \<Rightarrow> fs_query" where
  "apply_limit q n =
     (if n > 0 \<and> n \<noteq> QueryLimitUnlimited then add_op q (OpLimit n) else q)"

fun ApplyQueries :: "fs_query \<Rightarrow> Query list \<Rightarrow> fs_query \<times> failure option" where
  "ApplyQueries q [] = (q, None)"
| "ApplyQueries q (qry # queries) =
     (case apply_where q (qWhere qry) of
        (q1, Some e) \<Rightarrow> (q1, Some e)
      | (q1, None) \<Rightarrow>
          ApplyQueries (apply_limit (apply_order q1 (qOrderBy qry)) (qLimit qry)) queries)"

section \<open>The document store as the code calls it\<close>

record fs_update =
  uPath :: string
  uValue :: gvalue

text \<open>
  Every call that reaches the Firestore client or the transaction is an event; the log
  holds them in the order they were made.
\<close>

datatype event =
    EvDocuments fs_query
  | EvTxDocuments fs_query
  | EvSet string string "string \<rightharpoonup> gvalue"
  | EvTxSet string string "string \<rightharpoonup> gvalue"
  | EvUpdate string string "fs_update list"
  | EvTxUpdate string string "fs_update list"
  | EvBatchCommit "(string \<times> fs_update list) list"

text \<open>
  The store is outside the repository, so its answers are parameters: what a read
  returns and whether a write fails may depend on everything done so far (the log);
  \<open>new_doc_id\<close> is the identifier \<open>NewDoc\<close> generates; \<open>DataTo\<close> decodes a
  snapshot into a struct value.
\<close>

record env =
  read_result :: "event list \<Rightarrow> event \<Rightarrow> string + doc list"
  write_result :: "event list \<Rightarrow> event \<Rightarrow> string option"
  new_doc_id :: "event list \<Rightarrow> string \<Rightarrow> string"
  DataTo :: "doc \<Rightarrow> sfield list \<Rightarrow> string + sfield list"

definition do_write :: "env \<Rightarrow> event list \<Rightarrow> event \<Rightarrow> event list \<times> failure option" where
  "do_write E lg ev = (lg @ [ev], map_option Err (write_result E lg ev))"

definition is_write :: "event \<Rightarrow> bool" where
  "is_write ev = (case ev of EvDocuments q \<Rightarrow> False | EvTxDocuments q \<Rightarrow> False | _ \<Rightarrow> True)"

section \<open>Save (db.go)\<close>

text \<open>The loop of \<open>Save\<close> that collects the updates of the listed fields.\<close>

fun collect_updates ::
  "(string \<rightharpoonup> gvalue) \<Rightarrow> string list \<Rightarrow> fs_update list \<Rightarrow> failure + fs_update list" where
  "collect_updates data [] updates = Inr updates"
| "collect_updates data (field # names) updates =
     (case data field of
        None \<Rightarrow> Inl (Err (''field '' @ field @ '' not found in model data''))
      | Some v \<Rightarrow> collect_updates data names (updates @ [\<lparr>uPath = field, uValue = v\<rparr>]))"

text \<open>
  The part of \<open>save\<close> after the identifier is settled: \<open>ident\<close> is the identifier the
  document reference carries.
\<close>

definition save_write ::
  "env \<Rightarrow> dbOptions \<Rightarrow> event list \<Rightarrow> string \<Rightarrow> string \<Rightarrow> (string \<rightharpoonup> gvalue) \<Rightarrow> string list
     \<Rightarrow> event list \<times> failure option" where
  "save_write E d lg colName ident data fieldsToSave =
     (if length fieldsToSave > 0 \<and> ident = []
      then (lg, Some (Err ''cannot update fields on a record with no ID''))
      else if length fieldsToSave = 0
      then (if HasTransaction (conn d)
            then do_write E lg (EvTxSet colName ident data)
            else do_write E lg (EvSet colName ident data))
      else (case collect_updates data fieldsToSave [] of
              Inl e \<Rightarrow> (lg, Some e)
            | Inr updates \<Rightarrow>
                if HasTransaction (conn d)
                then do_write E lg (EvTxUpdate colName ident updates)
                else do_write E lg (EvUpdate colName ident updates)))"

text \<open>
  The closure \<open>save\<close>. The result is the log, the record as the caller sees it
  afterwards, and the error (\<open>None\<close> for nil).
\<close>

definition save_body ::
  "env \<Rightarrow> dbOptions \<Rightarrow> event list \<Rightarrow> go_model \<Rightarrow> string list
     \<Rightarrow> event list \<times> go_model \<times> failure option" where
  "save_body E d lg model fieldsToSave =
     (case modelType d of
        None \<Rightarrow> (lg, model, Some (Err ''no model set, call db.Model(&Model{}) first''))
      | Some mt \<Rightarrow>
     (case CollectionName d of
        Inl e \<Rightarrow> (lg, model, Some e)
      | Inr colName \<Rightarrow>
     (case GetID model of
        Inl e \<Rightarrow> (lg, model, Some e)
      | Inr ident \<Rightarrow>
     (case StructToMap model of
        Inl e \<Rightarrow> (lg, model, Some e)
      | Inr data \<Rightarrow>
          if ident = [] \<and> fieldsToSave = []
          then (let newId = new_doc_id E lg colName in
                case SetIDField model newId of
                  Inl e \<Rightarrow> (lg, model, Some e)
                | Inr model' \<Rightarrow>
                    (case save_write E d lg colName newId data fieldsToSave of
                       (lg', r) \<Rightarrow> (lg', model', r)))
          else (case save_write E d lg colName ident data fieldsToSave of
                  (lg', r) \<Rightarrow> (lg', model, r))))))"

definition Save ::
  "env \<Rightarrow> db_heap \<Rightarrow> db_ref \<Rightarrow> event list \<Rightarrow> go_model \<Rightarrow> string list
     \<Rightarrow> event list \<times> go_model \<times> failure option" where
  "Save E h db lg model fieldsToSave =
     (case Model h db model of
        Inl e \<Rightarrow> (lg, model, Some e)
      | Inr (h', inst) \<Rightarrow> save_body E (h' ! inst) lg model fieldsToSave)"

section \<open>FindAll (db.go)\<close>

text \<open>
  What a caller can pass as \<open>dest\<close>, by what \<open>FindAll\<close> asks of it:
  \<open>reflect.TypeOf(dest).Elem()\<close> panics (nil, or a kind without an element type);
  the element type is not a slice; it is a slice whose elements are not structs; it is
  a slice of structs but \<open>dest\<close> is not a pointer, or is a nil pointer; or \<open>dest\<close>
  points to a slice of structs, given with its present elements.
\<close>

datatype dest =
    DestNoElem
  | DestElemNotSlice
  | DestSliceOfNonStruct
  | DestNotPtr stype
  | DestNilPtr stype
  | DestPtrSlice stype "sfield list list"

definition fields_of :: "go_model \<Rightarrow> sfield list" where
  "fields_of model =
     (case model of
        Struct t fs \<Rightarrow> fs
      | PtrStruct t fs \<Rightarrow> fs
      | _ \<Rightarrow> [])"

text \<open>
  One document: a fresh zero value of the model type, decoded into, the identifier set.
\<close>

definition decode_doc :: "env \<Rightarrow> stype \<Rightarrow> doc \<Rightarrow> failure + sfield list" where
  "decode_doc E t dc =
     (case DataTo E dc (zero_fields t) of
        Inl e \<Rightarrow> Inl (Err (''failed to parse document: '' @ e))
      | Inr fs \<Rightarrow> map_sum id fields_of (SetIDField (PtrStruct t fs) (doc_id dc)))"

text \<open>The loop over the documents; \<open>sliceVal\<close> starts as the slice \<open>dest\<close> points to.\<close>

fun append_docs ::
  "env \<Rightarrow> stype \<Rightarrow> doc list \<Rightarrow> sfield list list \<Rightarrow> failure + sfield list list" where
  "append_docs E t [] sliceVal = Inr sliceVal"
| "append_docs E t (dc # docs) sliceVal =
     (case decode_doc E t dc of
        Inl e \<Rightarrow> Inl e
      | Inr elem \<Rightarrow> append_docs E t docs (sliceVal @ [elem]))"

definition find_all_body ::
  "env \<Rightarrow> dbOptions \<Rightarrow> event list \<Rightarrow> Query list \<Rightarrow> dest
     \<Rightarrow> event list \<times> dest \<times> failure option" where
  "find_all_body E d lg queries dst =
     (case modelType d of
        None \<Rightarrow> (lg, dst, Some (Err ''no model set, call db.Model(&Model{}) first''))
      | Some mt \<Rightarrow>
     (case CollectionName d of
        Inl e \<Rightarrow> (lg, dst, Some e)
      | Inr colName \<Rightarrow>
     (case (if queries \<noteq> [] then ApplyQueries (collection_query colName) queries
            else (collection_query colName, None)) of
        (q, Some e) \<Rightarrow> (lg, dst, Some e)
      | (q, None) \<Rightarrow>
          (let ev = (if HasTransaction (conn d) then EvTxDocuments q else EvDocuments q) in
           case read_result E lg ev of
             Inl e \<Rightarrow> (lg @ [ev], dst, Some (Err e))
           | Inr docs \<Rightarrow>
               (case dst of
                  DestPtrSlice t elems \<Rightarrow>
                    (case append_docs E mt docs elems of
                       Inl e \<Rightarrow> (lg @ [ev], dst, Some e)
                     | Inr sliceVal \<Rightarrow> (lg @ [ev], DestPtrSlice t sliceVal, None))
                | _ \<Rightarrow> (lg @ [ev], dst, Some (Err ''dest must be a pointer to a slice'')))))))"

text \<open>The outer part of \<open>FindAll\<close> once the element type is known to be a struct.\<close>

definition find_all_bound ::
  "env \<Rightarrow> db_heap \<Rightarrow> db_ref \<Rightarrow> event list \<Rightarrow> Query list \<Rightarrow> dest \<Rightarrow> stype
     \<Rightarrow> event list \<times> dest \<times> failure option" where
  "find_all_bound E h db lg queries dst elemType =
     (case Model h db (PtrStruct elemType (zero_fields elemType)) of
        Inl e \<Rightarrow> (lg, dst, Some e)
      | Inr (h', inst) \<Rightarrow> find_all_body E (h' ! inst) lg queries dst)"

definition FindAll ::
  "env \<Rightarrow> db_heap \<Rightarrow> db_ref \<Rightarrow> event list \<Rightarrow> Query list \<Rightarrow> dest
     \<Rightarrow> event list \<times> dest \<times> failure option" where
  "FindAll E h db lg queries dst =
     (case dst of
        DestNoElem \<Rightarrow> (lg, dst, Some (Panic ''reflect: Elem of a type without elements''))
      | DestElemNotSlice \<Rightarrow> (lg, dst, Some (Err ''dest must be a pointer to a slice''))
      | DestSliceOfNonStruct \<Rightarrow> (lg, dst, Some (Err ''dest slice element must be a struct''))
      | DestNotPtr t \<Rightarrow> find_all_bound E h db lg queries dst t
      | DestNilPtr t \<Rightarrow> find_all_bound E h db lg queries dst t
      | DestPtrSlice t elems \<Rightarrow> find_all_bound E h db lg queries dst t)"

section \<open>Update (db.go)\<close>

text \<open>
  The loop of the update by query. It has no bound of its own, so the model is a partial
  function: \<open>None\<close> says that the loop does not return.
\<close>

partial_function (option) update_loop ::
  "env \<Rightarrow> dbOptions \<Rightarrow> fs_query \<Rightarrow> fs_update list \<Rightarrow> doc option \<Rightarrow> event list
     \<Rightarrow> (event list \<times> failure option) option" where
  "update_loop E d q updates lastDoc lg =
     (let query = (case lastDoc of None \<Rightarrow> q | Some ld \<Rightarrow> add_op q (OpStartAfter ld));
          ev = EvDocuments (add_op query (OpLimit (updateBatchSize d)))
      in case read_result E lg ev of
           Inl e \<Rightarrow> Some (lg @ [ev], Some (Err (''failed to retrieve documents: '' @ e)))
         | Inr docs \<Rightarrow>
             if length docs = 0 then Some (lg @ [ev], None)
             else if HasTransaction (conn d)
             then Some (lg @ [ev], Some (Err ''transactional batch updates are not supported''))
             else (let cev = EvBatchCommit (map (\<lambda>dc. (doc_id dc, updates)) docs) in
                   case write_result E (lg @ [ev]) cev of
                     Some e \<Rightarrow> Some (lg @ [ev, cev], Some (Err (''batch commit failed: '' @ e)))
                   | None \<Rightarrow> update_loop E d q updates (Some (last docs)) (lg @ [ev, cev])))"

text \<open>The closure \<open>update\<close>; \<open>wh\<close> is the variadic parameter \<open>where\<close>.\<close>

definition update_body ::
  "env \<Rightarrow> dbOptions \<Rightarrow> event list \<Rightarrow> go_model \<Rightarrow> fs_update list \<Rightarrow> Query list list
     \<Rightarrow> (event list \<times> failure option) option" where
  "update_body E d lg model updates wh =
     (case modelType d of
        None \<Rightarrow> Some (lg, Some (Err ''no model set, call db.Model(&Model{}) first''))
      | Some mt \<Rightarrow>
     (case CollectionName d of
        Inl e \<Rightarrow> Some (lg, Some e)
      | Inr colName \<Rightarrow>
     (case GetID model of
        Inl e \<Rightarrow> Some (lg, Some e)
      | Inr ident \<Rightarrow>
          if ident \<noteq> []
          then (if HasTransaction (conn d)
                then Some (do_write E lg (EvTxUpdate colName ident updates))
                else Some (do_write E lg (EvUpdate colName ident updates)))
          else if length wh = 0 \<or> length (hd wh) = 0
          then Some (lg, Some (Err ''either ID or query conditions must be provided''))
          else (case ApplyQueries (collection_query colName) (hd wh) of
                  (q, Some e) \<Rightarrow> Some (lg, Some e)
                | (q, None) \<Rightarrow> update_loop E d q updates None lg))))"

definition Update ::
  "env \<Rightarrow> db_heap \<Rightarrow> db_ref \<Rightarrow> event list \<Rightarrow> go_model \<Rightarrow> fs_update list \<Rightarrow> Query list list
     \<Rightarrow> (event list \<times> failure option) option" where
  "Update E h db lg model updates wh =
     (case Model h db model of
        Inl e \<Rightarrow> Some (lg, Some e)
      | Inr (h', inst) \<Rightarrow> update_body E (h' ! inst) lg model updates wh)"

section \<open>The order of the clauses, as the specification words it\<close>

text \<open>
  The specification reads a list of query specifications as one sequence of clauses:
  the specifications in their given order and, within each, the filters in listed
  order, then the order clauses in listed order, then the limit, present only when it
  is greater than zero and not the unlimited sentinel.
\<close>

datatype clause = CFilter WhereClause | COrder OrderClause | CLimit int

definition spec_clauses :: "Query \<Rightarrow> clause list" where
  "spec_clauses s =
     map CFilter (qWhere s) @ map COrder (qOrderBy s) @
     (if qLimit s > 0 \<and> qLimit s \<noteq> QueryLimitUnlimited then [CLimit (qLimit s)] else [])"

definition all_clauses :: "Query list \<Rightarrow> clause list" where
  "all_clauses specs = concat (map spec_clauses specs)"

text \<open>A clause resolves unless it is a filter whose value provider fails.\<close>

fun resolves :: "clause \<Rightarrow> bool" where
  "resolves (CFilter w) = (case wValueProvider w of Some (Inl e) \<Rightarrow> False | _ \<Rightarrow> True)"
| "resolves c = True"

text \<open>The builder call a resolving clause stands for.\<close>

fun clause_op :: "clause \<Rightarrow> qop" where
  "clause_op (CFilter w) =
     OpWhere (wField w) (wOperator w)
       (case wValueProvider w of Some (Inr v) \<Rightarrow> v | _ \<Rightarrow> wValue w)"
| "clause_op (COrder oc) = OpOrderBy (oField oc) (oDirection oc)"
| "clause_op (CLimit n) = OpLimit n"

text \<open>The clauses applied one by one, stopping at the first filter that does not resolve.\<close>

fun run_clauses :: "fs_query \<Rightarrow> clause list \<Rightarrow> fs_query \<times> failure option" where
  "run_clauses q [] = (q, None)"
| "run_clauses q (c # cs) =
     (case c of
        CFilter w \<Rightarrow>
          (case wValueProvider w of
             Some (Inl e) \<Rightarrow>
               (q, Some (Err (''failed to get value for field '' @ wField w @ '': '' @ e)))
           | _ \<Rightarrow> run_clauses (add_op q (clause_op c)) cs)
      | _ \<Rightarrow> run_clauses (add_op q (clause_op c)) cs)"

section \<open>The result set of the bulk update\<close>







section \<open>Example queries\<close>

definition age_filter :: WhereClause where
  "age_filter = \<lparr>wField = ''age'', wOperator = ''>'', wValue = VInt 30, wValueProvider = None\<rparr>"

definition cursor_filter :: "(string + gvalue) option \<Rightarrow> WhereClause" where
  "cursor_filter p = \<lparr>wField = ''cursor'', wOperator = ''>='', wValue = VNil, wValueProvider = p\<rparr>"

definition by_age :: OrderClause where
  "by_age = \<lparr>oField = ''age'', oDirection = Desc\<rparr>"

definition users_query :: fs_query where
  "users_query = collection_query ''users''"

section \<open>An example store\<close>

text \<open>
  A store for the examples: the documents \<open>ds\<close> are the result set of every query, in
  a fixed order; a cursor and a limit cut it as Firestore does; every write succeeds;
  decoding fills the fields from the data by their annotation.
\<close>

fun run_op :: "qop \<Rightarrow> doc list \<Rightarrow> doc list" where
  "run_op (OpStartAfter x) ds = drop 1 (dropWhile (\<lambda>y. y \<noteq> x) ds)"
| "run_op (OpLimit n) ds = take (nat n) ds"
| "run_op (OpWhere f opr v) ds = ds"
| "run_op (OpOrderBy f dir) ds = ds"

definition run_ops :: "qop list \<Rightarrow> doc list \<Rightarrow> doc list" where
  "run_ops ops ds = fold run_op ops ds"

definition decode_by_tag :: "doc \<Rightarrow> sfield list \<Rightarrow> string + sfield list" where
  "decode_by_tag dc zero =
     Inr (map (\<lambda>f. case map_of (doc_fields dc) (ftag f) of
                      Some v \<Rightarrow> set_fval f v
                    | None \<Rightarrow> f) zero)"

definition demo_env :: "doc list \<Rightarrow> env" where
  "demo_env ds =
     \<lparr>read_result =
        (\<lambda>lg ev. case ev of
                    EvDocuments q \<Rightarrow> Inr (run_ops (q_ops q) ds)
                  | EvTxDocuments q \<Rightarrow> Inr (run_ops (q_ops q) ds)
                  | _ \<Rightarrow> Inl ''not a read''),
      write_result = (\<lambda>lg ev. None),
      new_doc_id = (\<lambda>lg col. ''new-'' @ col),
      DataTo = decode_by_tag\<rparr>"

definition fresh_db :: "nat option \<Rightarrow> db_heap" where
  "fresh_db tx = fst (New [] \<lparr>client = 0, transaction = tx\<rparr>)"

definition user_doc :: "string \<Rightarrow> string \<Rightarrow> int \<Rightarrow> doc" where
  "user_doc i n a = \<lparr>doc_id = i, doc_fields = [(''name'', VString n), (''age'', VInt a)]\<rparr>"






section \<open>Record adapter: theorems\<close>

lemma struct_fields_to_map_eq:
  "\<forall>f\<in>set fs. annotated f \<longrightarrow> fexported f \<Longrightarrow>
   struct_fields_to_map fs data =
     Inr (data ++ map_of (rev (map (\<lambda>f. (ftag f, fval f)) (filter annotated fs))))"
proof (induction fs arbitrary: data)
  case Nil
  then show ?case by simp
next
  case (Cons f fs)
  then have IH: "\<And>d. struct_fields_to_map fs d =
      Inr (d ++ map_of (rev (map (\<lambda>f. (ftag f, fval f)) (filter annotated fs))))"
    by simp
  show ?case
  proof (cases "annotated f")
    case False
    then have skip: "ftag f = [] \<or> ftag f = ''-''" by (simp add: annotated_def)
    show ?thesis using skip False IH by simp
  next
    case True
    then have keep: "\<not> (ftag f = [] \<or> ftag f = ''-'')" by (simp add: annotated_def)
    have "fexported f" using True Cons.prems by simp
    then show ?thesis using True keep IH
      by (simp add: map_add_def fun_eq_iff split: option.splits)
  qed
qed


lemma StructToMap_PtrStruct_eq:
  "\<forall>f\<in>set fs. annotated f \<longrightarrow> fexported f \<Longrightarrow>
   StructToMap (PtrStruct t fs) =
     Inr (map_of (rev (map (\<lambda>f. (ftag f, fval f)) (filter annotated fs))))"
  by (simp add: StructToMap_def indirect_def struct_fields_to_map_eq)

lemma StructToMap_Struct_PtrStruct: "StructToMap (Struct t fs) = StructToMap (PtrStruct t fs)"
  by (simp add: StructToMap_def indirect_def)

lemma map_of_rev_distinct:
  "distinct (map fst kvs) \<Longrightarrow> map_of (rev kvs) = map_of kvs"
proof (rule ext)
  fix k
  assume d: "distinct (map fst kvs)"
  then have dr: "distinct (map fst (rev kvs))" by (simp add: rev_map[symmetric])
  show "map_of (rev kvs) k = map_of kvs k"
  proof (cases "map_of kvs k")
    case None
    then have "k \<notin> fst ` set kvs" by (simp add: map_of_eq_None_iff)
    then have "map_of (rev kvs) k = None" by (simp add: map_of_eq_None_iff)
    with None show ?thesis by simp
  next
    case (Some v)
    then have "(k, v) \<in> set (rev kvs)" by (auto dest: map_of_SomeD)
    with dr have "map_of (rev kvs) k = Some v" by (rule map_of_is_SomeI)
    with Some show ?thesis by simp
  qed
qed

lemma map_of_perm_distinct:
  assumes "distinct (map fst kvs)" and "mset kvs' = mset kvs"
  shows "map_of kvs' = map_of kvs"
proof -
  have "mset (map fst kvs') = mset (map fst kvs)" using assms(2) by (metis mset_map)
  then have d': "distinct (map fst kvs')" using assms(1) by (metis mset_eq_imp_distinct_iff)
  have s: "set kvs' = set kvs" using assms(2) by (metis mset_eq_setD)
  show ?thesis using assms(1) d' s by (simp add: map_of_inject_set)
qed

subsection \<open>Lookup of a field and writing to it\<close>

lemma scan_levels_cases:
  "scan_levels n d l = Found f d' p z \<Longrightarrow>
     l \<noteq> [] \<and>
     ((filter (\<lambda>x. fname (scan_field x) = n) l = [(p, z, f)] \<and> d' = d) \<or>
      (filter (\<lambda>x. fname (scan_field x) = n) l = [] \<and>
       scan_levels n (Suc d) (next_level l) = Found f d' p z))"
  by (subst (asm) scan_levels.simps)
     (auto simp: scan_field_def split: if_splits list.splits)

lemma scan_levels_depth: "scan_levels n d l = Found f d' p z \<Longrightarrow> d \<le> d'"
proof (induction n d l rule: scan_levels.induct)
  case (1 n d level)
  from scan_levels_cases[OF "1.prems"] show ?case
  proof (elim conjE disjE)
    assume "d' = d" then show ?thesis by simp
  next
    assume ne: "level \<noteq> []" and e: "filter (\<lambda>x. fname (scan_field x) = n) level = []"
      and r: "scan_levels n (Suc d) (next_level level) = Found f d' p z"
    from "1.IH"[OF ne e r] show ?thesis by simp
  qed
qed

lemma scan_levels_unique:
  "filter (\<lambda>x. fname (scan_field x) = n) l = [(p, z, f)] \<Longrightarrow> scan_levels n d l = Found f d p z"
  by (subst scan_levels.simps) (auto simp: scan_field_def)

lemma scan_levels_skip:
  "l \<noteq> [] \<Longrightarrow> filter (\<lambda>x. fname (scan_field x) = n) l = [] \<Longrightarrow>
   scan_levels n d l = scan_levels n (Suc d) (next_level l)"
  by (subst scan_levels.simps) simp

lemma set_at_depth_Suc: "set_at_depth (Suc d) n s fs = map (set_inside d n s) fs"
  by (simp add: set_inside_def)

lemma fname_set_fval [simp]: "fname (set_fval f v) = fname f"
  and fembedded_set_fval [simp]: "fembedded (set_fval f v) = fembedded f"
  and fexported_set_fval [simp]: "fexported (set_fval f v) = fexported f"
  and ftag_set_fval [simp]: "ftag (set_fval f v) = ftag f"
  and fval_set_fval [simp]: "fval (set_fval f v) = v"
  by (simp_all add: set_fval_def)

lemma fname_set_inside [simp]: "fname (set_inside d n s f) = fname f"
  by (simp add: set_inside_def split: gvalue.splits)

lemma fname_scan_set_inside [simp]:
  "fname (scan_field (scan_set_inside d n s x)) = fname (scan_field x)"
  by (cases x) (simp add: scan_set_inside_def scan_field_def)

lemma filter_scan_set_inside:
  "filter (\<lambda>x. fname (scan_field x) = n) (map (scan_set_inside d n s) l) =
     map (scan_set_inside d n s) (filter (\<lambda>x. fname (scan_field x) = n) l)"
  by (induction l) simp_all

lemma embedded_fields_set_inside_Suc:
  "embedded_fields (scan_set_inside (Suc d) n s x) = map (scan_set_inside d n s) (embedded_fields x)"
proof -
  obtain p z f where x: "x = (p, z, f)" by (cases x)
  show ?thesis
  proof (cases z)
    case True
    then show ?thesis
      by (simp add: x scan_set_inside_def embedded_fields_def split: gvalue.splits)
  next
    case False
    then show ?thesis
      by (simp add: x scan_set_inside_def embedded_fields_def set_inside_def set_at_depth_Suc
          del: set_at_depth.simps split: gvalue.splits)
  qed
qed

lemma next_level_set_inside_Suc:
  "next_level (map (scan_set_inside (Suc d) n s) l) = map (scan_set_inside d n s) (next_level l)"
  by (induction l) (simp_all add: next_level_def embedded_fields_set_inside_Suc)

lemma filter_SetString_unique:
  "filter (\<lambda>g. fname g = n) ms = [f] \<Longrightarrow>
   filter (\<lambda>g. fname g = n) (SetString n s ms) = [set_fval f (VString s)]"
  by (induction ms) (auto split: if_splits)

lemma filter_SetString_none:
  "filter (\<lambda>g. fname g = n) ms = [] \<Longrightarrow> SetString n s ms = ms"
  by (induction ms) (auto split: if_splits)

lemma filter_scans:
  "filter (\<lambda>x. fname (scan_field x) = n) (map (\<lambda>g. (p, z, g)) ms) =
     map (\<lambda>g. (p, z, g)) (filter (\<lambda>g. fname g = n) ms)"
  by (induction ms) (simp_all add: scan_field_def)

lemma embedded_fields_set_inside_0_none:
  assumes "filter (\<lambda>x. fname (scan_field x) = n) (embedded_fields x) = []"
  shows "embedded_fields (scan_set_inside 0 n s x) = embedded_fields x"
proof -
  obtain p z f where x: "x = (p, z, f)" by (cases x)
  show ?thesis
  proof (cases "z \<or> \<not> fembedded f")
    case True
    then have "scan_set_inside 0 n s x = x"
      by (cases z) (simp_all add: x scan_set_inside_def set_inside_def)
    then show ?thesis by simp
  next
    case False
    then have z: "\<not> z" and e: "fembedded f" by simp_all
    show ?thesis
    proof (cases "fval f")
      case (VStruct ms)
      then have "filter (\<lambda>g. fname g = n) ms = []"
        using assms e by (simp add: x embedded_fields_def filter_scans)
      then show ?thesis
        using VStruct z e
        by (simp add: x scan_set_inside_def embedded_fields_def set_inside_def
            filter_SetString_none)
    next
      case (VPtrStruct ms)
      then have "filter (\<lambda>g. fname g = n) ms = []"
        using assms e by (simp add: x embedded_fields_def filter_scans)
      then show ?thesis
        using VPtrStruct z e
        by (simp add: x scan_set_inside_def embedded_fields_def set_inside_def
            filter_SetString_none)
    qed (simp_all add: x z e scan_set_inside_def embedded_fields_def set_inside_def)
  qed
qed

lemma embedded_fields_set_inside_0_unique:
  assumes "filter (\<lambda>x. fname (scan_field x) = n) (embedded_fields x) = [(p, z, f)]"
    and "\<not> z"
  shows "filter (\<lambda>x. fname (scan_field x) = n) (embedded_fields (scan_set_inside 0 n s x)) =
           [(p, z, set_fval f (VString s))]"
proof -
  obtain px zx fx where x: "x = (px, zx, fx)" by (cases x)
  have e: "fembedded fx" using assms(1) by (auto simp: x embedded_fields_def split: if_splits)
  show ?thesis
  proof (cases "fval fx")
    case (VStruct ms)
    from assms(1) have m: "map (\<lambda>g. (px, zx, g)) (filter (\<lambda>g. fname g = n) ms) = [(p, z, f)]"
      using e VStruct by (simp add: x embedded_fields_def filter_scans)
    then have u: "filter (\<lambda>g. fname g = n) ms = [f]" and pz: "px = p" "zx = z"
      by (auto simp: map_eq_Cons_conv)
    show ?thesis
      using VStruct e assms(2) pz filter_SetString_unique[OF u, of s]
      by (simp add: x scan_set_inside_def embedded_fields_def set_inside_def filter_scans)
  next
    case (VPtrStruct ms)
    from assms(1) have m: "map (\<lambda>g. (True, zx, g)) (filter (\<lambda>g. fname g = n) ms) = [(p, z, f)]"
      using e VPtrStruct by (simp add: x embedded_fields_def filter_scans)
    then have u: "filter (\<lambda>g. fname g = n) ms = [f]" and pz: "p = True" "zx = z"
      by (auto simp: map_eq_Cons_conv)
    show ?thesis
      using VPtrStruct e assms(2) pz filter_SetString_unique[OF u, of s]
      by (simp add: x scan_set_inside_def embedded_fields_def set_inside_def filter_scans)
  next
    case (VNilPtrStruct ms)
    from assms(1) have "map (\<lambda>g. (True, True, g)) (filter (\<lambda>g. fname g = n) ms) = [(p, z, f)]"
      using e VNilPtrStruct by (simp add: x embedded_fields_def filter_scans)
    then have "z" by (auto simp: map_eq_Cons_conv)
    then show ?thesis using assms(2) by simp
  qed (use assms(1) e in \<open>simp_all add: x embedded_fields_def\<close>)
qed

lemma next_level_set_inside_0:
  assumes "filter (\<lambda>x. fname (scan_field x) = n) (next_level l) = [(p, z, f)]" and "\<not> z"
  shows "filter (\<lambda>x. fname (scan_field x) = n) (next_level (map (scan_set_inside 0 n s) l)) =
           [(p, z, set_fval f (VString s))]"
  using assms(1)
proof (induction l)
  case Nil
  then show ?case by (simp add: next_level_def)
next
  case (Cons x xs)
  let ?m = "\<lambda>x. fname (scan_field x) = n"
  have split: "filter ?m (embedded_fields x) @ filter ?m (next_level xs) = [(p, z, f)]"
    using Cons.prems by (simp add: next_level_def)
  have goal: "filter ?m (next_level (map (scan_set_inside 0 n s) (x # xs))) =
      filter ?m (embedded_fields (scan_set_inside 0 n s x)) @
      filter ?m (next_level (map (scan_set_inside 0 n s) xs))"
    by (simp add: next_level_def)
  from split consider
      (here) "filter ?m (embedded_fields x) = [(p, z, f)]" "filter ?m (next_level xs) = []"
    | (later) "filter ?m (embedded_fields x) = []" "filter ?m (next_level xs) = [(p, z, f)]"
    by (auto simp: append_eq_Cons_conv)
  then show ?case
  proof cases
    case here
    have rest: "filter ?m (next_level (map (scan_set_inside 0 n s) xs)) = []"
      using here(2)
    proof (induction xs)
      case Nil
      then show ?case by (simp add: next_level_def)
    next
      case (Cons y ys)
      then have a: "filter ?m (embedded_fields y) = []" and b: "filter ?m (next_level ys) = []"
        by (simp_all add: next_level_def)
      show ?case
        using Cons.IH[OF b] a
        by (simp add: next_level_def embedded_fields_set_inside_0_none[OF a])
    qed
    show ?thesis
      unfolding goal rest
      using embedded_fields_set_inside_0_unique[OF here(1) assms(2), of s] by simp
  next
    case later
    show ?thesis
      unfolding goal
      using Cons.IH[OF later(2)] later(1)
      by (simp add: embedded_fields_set_inside_0_none[OF later(1)])
  qed
qed

lemma scan_levels_after_set:
  "scan_levels n k (next_level l) = Found f (k + j) p z \<Longrightarrow> \<not> z \<Longrightarrow>
   scan_levels n k (next_level (map (scan_set_inside j n s) l)) =
     Found (set_fval f (VString s)) (k + j) p z"
proof (induction j arbitrary: k l)
  case 0
  from scan_levels_cases[OF "0.prems"(1)] have
    "filter (\<lambda>x. fname (scan_field x) = n) (next_level l) = [(p, z, f)]"
    using scan_levels_depth[of n "Suc k" "next_level (next_level l)" f "k + 0" p z] by auto
  from next_level_set_inside_0[OF this "0.prems"(2), of s]
  show ?case using scan_levels_unique by simp
next
  case (Suc j)
  from scan_levels_cases[OF Suc.prems(1)] have
    ne: "next_level l \<noteq> []"
    and none: "filter (\<lambda>x. fname (scan_field x) = n) (next_level l) = []"
    and deeper: "scan_levels n (Suc k) (next_level (next_level l)) = Found f (Suc k + j) p z"
    by auto
  let ?l' = "map (scan_set_inside j n s) (next_level l)"
  have ne': "?l' \<noteq> []" using ne by simp
  have none': "filter (\<lambda>x. fname (scan_field x) = n) ?l' = []"
    using none by (simp add: filter_scan_set_inside)
  have "scan_levels n k (next_level (map (scan_set_inside (Suc j) n s) l)) = scan_levels n k ?l'"
    by (simp only: next_level_set_inside_Suc)
  also have "\<dots> = scan_levels n (Suc k) (next_level ?l')"
    by (rule scan_levels_skip[OF ne' none'])
  also have "\<dots> = Found (set_fval f (VString s)) (Suc k + j) p z"
    by (rule Suc.IH[OF deeper Suc.prems(2)])
  finally show ?case by simp
qed

lemma find_SetString:
  "find (\<lambda>f. fname f = n) (SetString n s fs) =
     map_option (\<lambda>f. set_fval f (VString s)) (find (\<lambda>f. fname f = n) fs)"
  by (induction fs) auto

lemma find_map_set_inside:
  "find (\<lambda>f. fname f = n) (map (set_inside d n s) fs) =
     map_option (set_inside d n s) (find (\<lambda>f. fname f = n) fs)"
  by (induction fs) auto

lemma FieldByName_direct:
  "FieldByName n fs = Found f 0 p z \<longleftrightarrow>
     find (\<lambda>g. fname g = n) fs = Some f \<and> \<not> p \<and> \<not> z"
proof (cases "find (\<lambda>g. fname g = n) fs")
  case None
  have "scan_levels n 1 l \<noteq> Found f 0 p z" for l
    using scan_levels_depth[of n 1 l f 0 p z] by auto
  then show ?thesis using None by (simp add: FieldByName_def)
next
  case (Some g)
  then show ?thesis by (auto simp: FieldByName_def)
qed

lemma FieldByName_after_set:
  assumes found: "FieldByName n fs = Found f d p z" and safe: "\<not> z"
  shows "FieldByName n (set_at_depth d n s fs) = Found (set_fval f (VString s)) d p z"
proof (cases "find (\<lambda>g. fname g = n) fs")
  case (Some g)
  then have "f = g" "d = 0" "\<not> p" using found by (simp_all add: FieldByName_def)
  then show ?thesis using Some safe by (simp add: FieldByName_def find_SetString)
next
  case None
  let ?l = "map (\<lambda>g. (False, False, g)) fs"
  from None found have sc: "scan_levels n 1 (next_level ?l) = Found f d p z"
    by (simp add: FieldByName_def)
  from scan_levels_depth[OF sc] obtain j where d: "d = Suc j" by (cases d) simp_all
  have sc': "scan_levels n 1 (next_level ?l) = Found f (1 + j) p z" using sc d by simp
  have l': "map (\<lambda>g. (False, False, g)) (map (set_inside j n s) fs) =
      map (scan_set_inside j n s) ?l"
    by (simp add: scan_set_inside_def)
  have none': "find (\<lambda>g. fname g = n) (map (set_inside j n s) fs) = None"
    using None by (simp add: find_map_set_inside)
  have "FieldByName n (set_at_depth d n s fs) =
      scan_levels n 1 (next_level (map (scan_set_inside j n s) ?l))"
    unfolding d set_at_depth_Suc by (simp only: FieldByName_def none' l' option.case)
  also have "\<dots> = Found (set_fval f (VString s)) (1 + j) p z"
    by (rule scan_levels_after_set[OF sc' safe])
  finally show ?thesis using d by simp
qed

lemma FieldByName_User:
  "FieldByName ''ID'' (User_fields i n e a) = Found (SField ''ID'' ''-'' True False (VString i)) 0 False False"
  by (simp add: FieldByName_def User_fields_def)

lemma FieldByName_Account:
  "FieldByName ''ID'' (Account_fields i n) =
     Found (SField ''ID'' ''id'' True False (VString i)) 1 False False"
  by (simp add: FieldByName_def Account_fields_def next_level_def embedded_fields_def
      scan_levels.simps scan_field_def)

lemma FieldByName_Item: "FieldByName ''ID'' (Item_fields n p) = NotFound"
  by (simp add: FieldByName_def Item_fields_def next_level_def embedded_fields_def
      scan_levels.simps)

lemma FieldByName_Example:
  "FieldByName ''ID'' (Example_fields i n e) =
     Found (SField ''ID'' ''id'' True False (VString i)) 0 False False"
  by (simp add: FieldByName_def Example_fields_def)

text \<open>
  C5, as the code has it. Take a record, passed by value or by pointer, whose directly
  declared annotated fields are exported and carry pairwise distinct annotations. Then
  \<open>StructToMap\<close> returns a mapping whose keys are exactly the annotations of the
  directly declared fields that are non-empty and not \<open>-\<close>, each bound to the value of
  its field, whatever the order of declaration (\<open>fs'\<close> is any reordering of \<open>fs\<close>).
  The identifier, the field that the lookup of \<open>ID\<close> finds, is not excluded: declared in
  the record itself with such an annotation, it is in the mapping under that annotation
  with its value; declared in the record itself with an empty or \<open>-\<close> annotation, it is
  left out like any such field; promoted from an embedded struct, it is not visited by
  the loop, and every entry of the mapping comes from a directly declared field that is
  not named \<open>ID\<close>.
\<close>

theorem StructToMap_annotated_fields:
  assumes exported: "\<forall>f\<in>set fs. annotated f \<longrightarrow> fexported f"
    and tags: "distinct (map ftag (filter annotated fs))"
    and perm: "mset fs' = mset fs"
  shows "\<exists>m. StructToMap (PtrStruct t fs) = Inr m \<and> StructToMap (PtrStruct t fs') = Inr m \<and>
             StructToMap (Struct t fs') = Inr m \<and>
             dom m = ftag ` {f \<in> set fs. annotated f} \<and>
             (\<forall>f\<in>set fs. annotated f \<longrightarrow> m (ftag f) = Some (fval f)) \<and>
             (\<forall>f. FieldByName ''ID'' fs = Found f 0 False False \<longrightarrow>
                  (if annotated f then m (ftag f) = Some (fval f) else m (ftag f) = None)) \<and>
             (\<forall>f d p z. FieldByName ''ID'' fs = Found f (Suc d) p z \<longrightarrow>
                  (\<forall>k v. m k = Some v \<longrightarrow>
                     (\<exists>g\<in>set fs. fname g \<noteq> ''ID'' \<and> annotated g \<and> ftag g = k \<and> fval g = v)))"
proof -
  let ?kv = "\<lambda>f. (ftag f, fval f)"
  let ?kvs = "map ?kv (filter annotated fs)"
  let ?kvs' = "map ?kv (filter annotated fs')"
  have fst_kvs: "map fst ?kvs = map ftag (filter annotated fs)" by (simp add: comp_def)
  have d: "distinct (map fst ?kvs)" unfolding fst_kvs by (rule tags)
  have set_eq: "set fs' = set fs" using perm by (rule mset_eq_setD)
  have exported': "\<forall>f\<in>set fs'. annotated f \<longrightarrow> fexported f" using exported set_eq by simp
  have p: "mset ?kvs' = mset ?kvs" using perm by simp
  have fst_kvs': "map fst ?kvs' = map ftag (filter annotated fs')" by (simp add: comp_def)
  have "mset (map ftag (filter annotated fs')) = mset (map ftag (filter annotated fs))"
    using perm by simp
  then have "distinct (map ftag (filter annotated fs')) = distinct (map ftag (filter annotated fs))"
    by (rule mset_eq_imp_distinct_iff)
  then have "distinct (map ftag (filter annotated fs'))"
    using tags by blast
  then have d': "distinct (map fst ?kvs')" unfolding fst_kvs' .
  have m: "StructToMap (PtrStruct t fs) = Inr (map_of ?kvs)"
    using exported d by (simp add: StructToMap_PtrStruct_eq map_of_rev_distinct)
  have "StructToMap (PtrStruct t fs') = Inr (map_of ?kvs')"
    using exported' d' by (simp add: StructToMap_PtrStruct_eq map_of_rev_distinct)
  then have m': "StructToMap (PtrStruct t fs') = Inr (map_of ?kvs)"
    using map_of_perm_distinct[OF d p] by simp
  have dm: "dom (map_of ?kvs) = ftag ` {f \<in> set fs. annotated f}"
    by (auto simp: dom_map_of_conv_image_fst image_iff)
  have val: "map_of ?kvs (ftag f) = Some (fval f)" if "f \<in> set fs" and "annotated f" for f
  proof -
    from that have "(ftag f, fval f) \<in> set ?kvs" by auto
    with d show ?thesis by (rule map_of_is_SomeI)
  qed
  then have vals: "\<forall>f\<in>set fs. annotated f \<longrightarrow> map_of ?kvs (ftag f) = Some (fval f)"
    by blast
  have m'': "StructToMap (Struct t fs') = Inr (map_of ?kvs)"
    using m' by (simp only: StructToMap_Struct_PtrStruct)
  have direct: "\<forall>f. FieldByName ''ID'' fs = Found f 0 False False \<longrightarrow>
      (if annotated f then map_of ?kvs (ftag f) = Some (fval f) else map_of ?kvs (ftag f) = None)"
  proof (intro allI impI)
    fix f assume "FieldByName ''ID'' fs = Found f 0 False False"
    then have "find (\<lambda>g. fname g = ''ID'') fs = Some f" by (simp add: FieldByName_direct)
    then have mem: "f \<in> set fs" by (auto simp: find_Some_iff)
    show "if annotated f then map_of ?kvs (ftag f) = Some (fval f) else map_of ?kvs (ftag f) = None"
    proof (cases "annotated f")
      case True
      then show ?thesis using val[OF mem] by simp
    next
      case False
      have "ftag f \<notin> dom (map_of ?kvs)"
        unfolding dm using False by (auto simp: annotated_def)
      then show ?thesis using False by (simp add: domIff)
    qed
  qed
  have promoted: "\<forall>f d p z. FieldByName ''ID'' fs = Found f (Suc d) p z \<longrightarrow>
      (\<forall>k v. map_of ?kvs k = Some v \<longrightarrow>
         (\<exists>g\<in>set fs. fname g \<noteq> ''ID'' \<and> annotated g \<and> ftag g = k \<and> fval g = v))"
  proof (intro allI impI)
    fix f d p z k v
    assume l: "FieldByName ''ID'' fs = Found f (Suc d) p z" and kv: "map_of ?kvs k = Some v"
    have none: "find (\<lambda>g. fname g = ''ID'') fs = None"
      using l by (cases "find (\<lambda>g. fname g = ''ID'') fs") (simp_all add: FieldByName_def)
    from kv have "(k, v) \<in> set ?kvs" by (rule map_of_SomeD)
    then obtain g where g: "g \<in> set fs" "annotated g" "ftag g = k" "fval g = v" by auto
    have "fname g \<noteq> ''ID''" using none g(1) by (auto simp: find_None_iff)
    then show "\<exists>g\<in>set fs. fname g \<noteq> ''ID'' \<and> annotated g \<and> ftag g = k \<and> fval g = v"
      using g by blast
  qed
  show ?thesis
    by (rule exI[of _ "map_of ?kvs"]) (intro conjI m m' m'' dm vals direct promoted)
qed

theorem StructToMap_annotated_fields_witness:
  "(\<exists>m. StructToMap (PtrStruct Example_type (Example_fields ''a1'' ''John'' ''j@x'')) = Inr m \<and>
        StructToMap (PtrStruct Example_type (rev (Example_fields ''a1'' ''John'' ''j@x''))) = Inr m \<and>
        StructToMap (Struct Example_type (rev (Example_fields ''a1'' ''John'' ''j@x''))) = Inr m \<and>
        dom m = {''id'', ''name'', ''email''} \<and>
        m ''id'' = Some (VString ''a1'') \<and> m ''name'' = Some (VString ''John'') \<and>
        m ''email'' = Some (VString ''j@x'')) \<and>
   (\<exists>m. StructToMap (PtrStruct Account_type (Account_fields ''a1'' ''John'')) = Inr m \<and>
        dom m = {''name''} \<and> m ''name'' = Some (VString ''John'') \<and> m ''id'' = None)"
proof (rule conjI)
  let ?fs = "Example_fields ''a1'' ''John'' ''j@x''"
  have e: "\<forall>f\<in>set ?fs. annotated f \<longrightarrow> fexported f"
    by (simp add: Example_fields_def)
  have t: "distinct (map ftag (filter annotated ?fs))"
    by (simp add: Example_fields_def annotated_def)
  have p: "mset (rev ?fs) = mset ?fs" by simp
  have "ftag ` {f \<in> set ?fs. annotated f} = set (map ftag (filter annotated ?fs))"
    by auto
  also have "\<dots> = {''id'', ''name'', ''email''}"
    by (simp add: Example_fields_def annotated_def)
  finally have img: "ftag ` {f \<in> set ?fs. annotated f} = {''id'', ''name'', ''email''}" .
  from StructToMap_annotated_fields[OF e t p, of Example_type] obtain m where
    m: "StructToMap (PtrStruct Example_type ?fs) = Inr m"
       "StructToMap (PtrStruct Example_type (rev ?fs)) = Inr m"
       "StructToMap (Struct Example_type (rev ?fs)) = Inr m"
       "dom m = ftag ` {f \<in> set ?fs. annotated f}"
       "\<forall>f\<in>set ?fs. annotated f \<longrightarrow> m (ftag f) = Some (fval f)"
       "\<forall>f. FieldByName ''ID'' ?fs = Found f 0 False False \<longrightarrow>
            (if annotated f then m (ftag f) = Some (fval f) else m (ftag f) = None)"
    by blast
  have "m ''id'' = Some (VString ''a1'')"
    using m(6) by (simp add: FieldByName_Example annotated_def)
  moreover have "m ''name'' = Some (VString ''John'')" "m ''email'' = Some (VString ''j@x'')"
    using m(5) by (simp_all add: Example_fields_def annotated_def)
  ultimately show "\<exists>m. StructToMap (PtrStruct Example_type ?fs) = Inr m \<and>
        StructToMap (PtrStruct Example_type (rev ?fs)) = Inr m \<and>
        StructToMap (Struct Example_type (rev ?fs)) = Inr m \<and>
        dom m = {''id'', ''name'', ''email''} \<and>
        m ''id'' = Some (VString ''a1'') \<and> m ''name'' = Some (VString ''John'') \<and>
        m ''email'' = Some (VString ''j@x'')"
    using m(1,2,3) m(4)[unfolded img]
    by (intro exI[of _ m] conjI) simp_all
next
  let ?fs = "Account_fields ''a1'' ''John''"
  have e: "\<forall>f\<in>set ?fs. annotated f \<longrightarrow> fexported f"
    by (simp add: Account_fields_def annotated_def)
  have t: "distinct (map ftag (filter annotated ?fs))"
    by (simp add: Account_fields_def annotated_def)
  have p: "mset ?fs = mset ?fs" by simp
  have "ftag ` {f \<in> set ?fs. annotated f} = set (map ftag (filter annotated ?fs))"
    by auto
  also have "\<dots> = {''name''}"
    by (simp add: Account_fields_def annotated_def)
  finally have img: "ftag ` {f \<in> set ?fs. annotated f} = {''name''}" .
  from StructToMap_annotated_fields[OF e t p, of Account_type] obtain m where
    m: "StructToMap (PtrStruct Account_type ?fs) = Inr m"
       "dom m = ftag ` {f \<in> set ?fs. annotated f}"
       "\<forall>f\<in>set ?fs. annotated f \<longrightarrow> m (ftag f) = Some (fval f)"
       "\<forall>f d p z. FieldByName ''ID'' ?fs = Found f (Suc d) p z \<longrightarrow>
          (\<forall>k v. m k = Some v \<longrightarrow>
             (\<exists>g\<in>set ?fs. fname g \<noteq> ''ID'' \<and> annotated g \<and> ftag g = k \<and> fval g = v))"
    by blast
  have n: "m ''name'' = Some (VString ''John'')"
    using m(3) by (simp add: Account_fields_def annotated_def)
  have l: "FieldByName ''ID'' ?fs =
      Found (SField ''ID'' ''id'' True False (VString ''a1'')) (Suc 0) False False"
    using FieldByName_Account[of "''a1''" "''John''"] by simp
  have "m ''id'' = None"
  proof (cases "m ''id''")
    case None
    then show ?thesis .
  next
    case (Some v)
    from m(4)[rule_format, OF l Some] show ?thesis
      by (simp add: Account_fields_def annotated_def)
  qed
  then have i: "m ''id'' = None" .
  then show "\<exists>m. StructToMap (PtrStruct Account_type ?fs) = Inr m \<and>
        dom m = {''name''} \<and> m ''name'' = Some (VString ''John'') \<and> m ''id'' = None"
    using m(1) m(2)[unfolded img] n i
    by (intro exI[of _ m] conjI) simp_all
qed

text \<open>
  C5 as stated fails: the \<open>Example\<close> record of the example program annotates its
  identifier field with \<open>id\<close>, and \<open>StructToMap\<close> stores the identifier under that key,
  so the result is not the mapping without the identifier.
\<close>

theorem StructToMap_keeps_identifier_counterexample:
  "StructToMap (PtrStruct Example_type (Example_fields ''a1'' ''John'' ''j@x'')) \<noteq>
     Inr (spec_ToFieldMapping (Example_fields ''a1'' ''John'' ''j@x''))"
proof
  let ?fs = "Example_fields ''a1'' ''John'' ''j@x''"
  assume eq: "StructToMap (PtrStruct Example_type ?fs) = Inr (spec_ToFieldMapping ?fs)"
  have "StructToMap (PtrStruct Example_type ?fs) =
          Inr (Map.empty(''id'' \<mapsto> VString ''a1'', ''name'' \<mapsto> VString ''John'',
                         ''email'' \<mapsto> VString ''j@x''))"
    by (simp add: StructToMap_def indirect_def Example_fields_def)
  with eq have "spec_ToFieldMapping ?fs =
      Map.empty(''id'' \<mapsto> VString ''a1'', ''name'' \<mapsto> VString ''John'',
                ''email'' \<mapsto> VString ''j@x'')"
    by simp
  then have "spec_ToFieldMapping ?fs ''id'' = Some (VString ''a1'')"
    by simp
  moreover have "spec_ToFieldMapping ?fs ''id'' = None"
    by (simp add: spec_ToFieldMapping_def Example_fields_def annotated_def)
  ultimately show False by simp
qed

text \<open>
  C6, as the code has it. Take a struct record, passed by pointer or by value. When the
  lookup of \<open>ID\<close> ends in a settable field of kind string (declared in the record or
  promoted from an embedded struct; for a record passed by value the way to the field
  has to go through an embedded pointer), \<open>GetID\<close> after \<open>SetIDField\<close> returns the
  injected string, whatever it is. In every other case in which the lookup does not go
  through a nil embedded pointer (there is no such field, it is ambiguous, it is not a
  string, or it cannot be set), \<open>SetIDField\<close> returns the record as it was, so \<open>GetID\<close>
  returns what it returned before. When the lookup goes through a nil embedded pointer,
  and on a typed nil pointer to a struct, \<open>SetIDField\<close> panics.
\<close>

theorem SetIDField_GetID_round_trip:
  "(settable_string_ID True fs \<longrightarrow> id_round_trip (PtrStruct t fs) ident) \<and>
   (settable_string_ID False fs \<longrightarrow> id_round_trip (Struct t fs) ident) \<and>
   (\<not> settable_string_ID True fs \<and> ID_lookup_safe fs \<longrightarrow>
      SetIDField (PtrStruct t fs) ident = Inr (PtrStruct t fs)) \<and>
   (\<not> settable_string_ID False fs \<and> ID_lookup_safe fs \<longrightarrow>
      SetIDField (Struct t fs) ident = Inr (Struct t fs)) \<and>
   (\<not> ID_lookup_safe fs \<longrightarrow>
      (\<exists>msg. SetIDField (PtrStruct t fs) ident = Inl (Panic msg)) \<and>
      (\<exists>msg. SetIDField (Struct t fs) ident = Inl (Panic msg))) \<and>
   SetIDField (NilPtrStruct t) ident =
     Inl (Panic ''reflect: call of reflect.Value.FieldByName on zero Value'')"
proof -
  have set: "set_id_fields a fs ident = Inr (set_at_depth d ''ID'' ident fs) \<and>
             struct_ID (set_at_depth d ''ID'' ident fs) = Inr ident"
    if s: "settable_string_ID a fs" and l: "FieldByName ''ID'' fs = Found f d p z" for a f d p z
  proof -
    have c: "\<not> z" "a \<or> p" "fexported f" "is_string (fval f)"
      using s l by (simp_all add: settable_string_ID_def)
    have 1: "set_id_fields a fs ident = Inr (set_at_depth d ''ID'' ident fs)"
      using c l by (simp add: set_id_fields_def)
    have 2: "struct_ID (set_at_depth d ''ID'' ident fs) = Inr ident"
      using FieldByName_after_set[OF l c(1), of ident] c(1) by (simp add: struct_ID_def)
    show ?thesis using 1 2 by simp
  qed
  have rt: "settable_string_ID a fs \<Longrightarrow>
      \<exists>fs'. set_id_fields a fs ident = Inr fs' \<and> struct_ID fs' = Inr ident" for a
    using set[of a] by (cases "FieldByName ''ID'' fs") (auto simp: settable_string_ID_def)
  have noop: "\<not> settable_string_ID a fs \<Longrightarrow> ID_lookup_safe fs \<Longrightarrow>
      set_id_fields a fs ident = Inr fs" for a
    by (cases "FieldByName ''ID'' fs")
       (auto simp: settable_string_ID_def ID_lookup_safe_def set_id_fields_def)
  have unsafe: "\<not> ID_lookup_safe fs \<Longrightarrow> \<exists>msg. set_id_fields a fs ident = Inl (Panic msg)" for a
    by (cases "FieldByName ''ID'' fs") (auto simp: ID_lookup_safe_def set_id_fields_def)
  show ?thesis
  proof (intro conjI impI)
    assume "settable_string_ID True fs"
    from rt[OF this] show "id_round_trip (PtrStruct t fs) ident"
      by (auto simp: id_round_trip_def SetIDField_def GetID_def indirect_def)
  next
    assume "settable_string_ID False fs"
    from rt[OF this] show "id_round_trip (Struct t fs) ident"
      by (auto simp: id_round_trip_def SetIDField_def GetID_def indirect_def)
  next
    assume "\<not> settable_string_ID True fs \<and> ID_lookup_safe fs"
    then show "SetIDField (PtrStruct t fs) ident = Inr (PtrStruct t fs)"
      using noop[of True] by (simp add: SetIDField_def)
  next
    assume "\<not> settable_string_ID False fs \<and> ID_lookup_safe fs"
    then show "SetIDField (Struct t fs) ident = Inr (Struct t fs)"
      using noop[of False] by (simp add: SetIDField_def)
  next
    assume "\<not> ID_lookup_safe fs"
    from unsafe[OF this, of True]
    show "\<exists>msg. SetIDField (PtrStruct t fs) ident = Inl (Panic msg)"
      by (auto simp: SetIDField_def)
  next
    assume "\<not> ID_lookup_safe fs"
    from unsafe[OF this, of False]
    show "\<exists>msg. SetIDField (Struct t fs) ident = Inl (Panic msg)"
      by (auto simp: SetIDField_def)
  next
    show "SetIDField (NilPtrStruct t) ident =
        Inl (Panic ''reflect: call of reflect.Value.FieldByName on zero Value'')"
      by (simp add: SetIDField_def)
  qed
qed

theorem SetIDField_GetID_round_trip_witness:
  "id_round_trip (PtrStruct User_type (User_fields [] ''John'' ''j@x'' 30)) ''doc-17'' \<and>
   id_round_trip (PtrStruct Account_type (Account_fields [] ''John'')) ''doc-17'' \<and>
   id_round_trip (Struct Item_type
     [SField ''tbase'' [] False True (VPtrStruct [SField ''ID'' ''id'' True False (VString [])])])
     ''doc-17'' \<and>
   SetIDField (PtrStruct Item_type (Item_fields ''Widget'' 10)) ''doc-17'' =
     Inr (PtrStruct Item_type (Item_fields ''Widget'' 10)) \<and>
   SetIDField (Struct User_type (User_fields [] ''John'' ''j@x'' 30)) ''doc-17'' =
     Inr (Struct User_type (User_fields [] ''John'' ''j@x'' 30)) \<and>
   (\<exists>msg. SetIDField (PtrStruct Item_type
      [SField ''tbase'' [] False True (VNilPtrStruct [SField ''ID'' ''id'' True False (VString [])])])
      ''doc-17'' = Inl (Panic msg))"
proof -
  let ?ptr = "[SField ''tbase'' [] False True (VPtrStruct [SField ''ID'' ''id'' True False (VString [])])]"
  let ?nil = "[SField ''tbase'' [] False True (VNilPtrStruct [SField ''ID'' ''id'' True False (VString [])])]"
  have lp: "FieldByName ''ID'' ?ptr = Found (SField ''ID'' ''id'' True False (VString [])) 1 True False"
    by (simp add: FieldByName_def next_level_def embedded_fields_def scan_levels.simps
        scan_field_def)
  have ln: "FieldByName ''ID'' ?nil = Found (SField ''ID'' ''id'' True False (VString [])) 1 True True"
    by (simp add: FieldByName_def next_level_def embedded_fields_def scan_levels.simps
        scan_field_def)
  have u: "settable_string_ID True (User_fields [] ''John'' ''j@x'' 30)"
    by (simp add: settable_string_ID_def FieldByName_User)
  have a: "settable_string_ID True (Account_fields [] ''John'')"
    by (simp add: settable_string_ID_def FieldByName_Account)
  have e: "settable_string_ID False ?ptr"
    by (simp add: settable_string_ID_def lp)
  have i: "\<not> settable_string_ID True (Item_fields ''Widget'' 10) \<and>
           ID_lookup_safe (Item_fields ''Widget'' 10)"
    by (simp add: settable_string_ID_def ID_lookup_safe_def FieldByName_Item)
  have v: "\<not> settable_string_ID False (User_fields [] ''John'' ''j@x'' 30) \<and>
           ID_lookup_safe (User_fields [] ''John'' ''j@x'' 30)"
    by (simp add: settable_string_ID_def ID_lookup_safe_def FieldByName_User)
  have n: "\<not> ID_lookup_safe ?nil"
    by (simp add: ID_lookup_safe_def ln)
  note r1 = SetIDField_GetID_round_trip[of "User_fields [] ''John'' ''j@x'' 30" User_type "''doc-17''",
      THEN conjunct1, THEN mp, OF u]
  note r2 = SetIDField_GetID_round_trip[of "Account_fields [] ''John''" Account_type "''doc-17''",
      THEN conjunct1, THEN mp, OF a]
  note r3 = SetIDField_GetID_round_trip[of ?ptr Item_type "''doc-17''",
      THEN conjunct2, THEN conjunct1, THEN mp, OF e]
  note r4 = SetIDField_GetID_round_trip[of "Item_fields ''Widget'' 10" Item_type "''doc-17''",
      THEN conjunct2, THEN conjunct2, THEN conjunct1, THEN mp, OF i]
  note r5 = SetIDField_GetID_round_trip[of "User_fields [] ''John'' ''j@x'' 30" User_type "''doc-17''",
      THEN conjunct2, THEN conjunct2, THEN conjunct2, THEN conjunct1, THEN mp, OF v]
  note r6 = SetIDField_GetID_round_trip[of ?nil Item_type "''doc-17''",
      THEN conjunct2, THEN conjunct2, THEN conjunct2, THEN conjunct2, THEN conjunct1, THEN mp,
      OF n, THEN conjunct1]
  show ?thesis by (intro conjI r1 r2 r3 r4 r5 r6)
qed

text \<open>
  C6 as stated fails: a record without a field \<open>ID\<close> is left as it is by
  \<open>SetIDField\<close>, and \<open>GetID\<close> then returns the empty string, not the injected one.
\<close>

theorem SetIDField_GetID_no_ID_field_counterexample:
  "\<not> id_round_trip (PtrStruct Item_type (Item_fields ''Widget'' 10)) ''doc-17''"
  by (simp add: id_round_trip_def SetIDField_def set_id_fields_def GetID_def indirect_def
      struct_ID_def FieldByName_Item)


section \<open>Builders: theorems\<close>

text \<open>
  C4, evaluated on the code. On a fresh orchestrator (batch size 100),
  \<open>SetUpdateBatchSize\<close> with 5 returns the receiver itself, and
  \<open>GetUpdateBatchSize\<close> of what it returns is still 100: the instance that holds 5
  is allocated and dropped.
\<close>

theorem SetUpdateBatchSize_returns_receiver:
  "(case New [] \<lparr>client = 0, transaction = None\<rparr> of
      (h, db) \<Rightarrow>
        (case SetUpdateBatchSize h db 5 of
           Inl e \<Rightarrow> False
         | Inr (h', r) \<Rightarrow> r = db \<and> GetUpdateBatchSize h' r = Inr 100 \<and>
                          GetUpdateBatchSize h' (length h) = Inr 5))"
  by (simp add: New_def SetUpdateBatchSize_def GetUpdateBatchSize_def deref_def)

text \<open>
  C10. \<open>Model\<close> panics on every argument that is neither a struct nor a pointer to a
  struct, whatever the receiver: on the nil interface in \<open>v.Type()\<close>, on any other
  value that is not a struct and on a pointer, nil or not, to anything that is not a
  struct with its own message. On a live receiver and a struct, a pointer to a struct
  or a typed nil pointer to a struct it does not fail: it returns a fresh instance (the
  next free reference, so none of the heap before) that copies the receiver's options
  with the struct type of the argument bound, and leaves every earlier instance as it
  was.
\<close>

theorem Model_panics_exactly_on_non_structs:
  "Model h db NilInterface = Inl (Panic ''reflect: call of reflect.Value.Type on zero Value'') \<and>
   Model h db NonStruct = Inl (Panic ''model must be a struct or pointer to a struct'') \<and>
   Model h db PtrNonStruct = Inl (Panic ''model must be a struct or pointer to a struct'') \<and>
   Model h db NilPtrNonStruct = Inl (Panic ''model must be a struct or pointer to a struct'') \<and>
   (db < length h \<longrightarrow>
      Model h db (Struct t fs) =
        Inr (h @ [(h ! db)\<lparr>modelType := Some t, modelVal := Some t\<rparr>], length h) \<and>
      Model h db (PtrStruct t fs) =
        Inr (h @ [(h ! db)\<lparr>modelType := Some t, modelVal := Some t\<rparr>], length h) \<and>
      Model h db (NilPtrStruct t) =
        Inr (h @ [(h ! db)\<lparr>modelType := Some t, modelVal := Some t\<rparr>], length h))"
  by (simp add: Model_def value_type_def deref_def)

theorem Model_panics_exactly_on_non_structs_witness:
  "Model [\<lparr>conn = \<lparr>client = 0, transaction = None\<rparr>, modelType = None, modelVal = None,
           updateBatchSize = 100\<rparr>] 0 NilInterface =
     Inl (Panic ''reflect: call of reflect.Value.Type on zero Value'') \<and>
   Model [\<lparr>conn = \<lparr>client = 0, transaction = None\<rparr>, modelType = None, modelVal = None,
           updateBatchSize = 100\<rparr>] 0 NonStruct =
     Inl (Panic ''model must be a struct or pointer to a struct'') \<and>
   Model [\<lparr>conn = \<lparr>client = 0, transaction = None\<rparr>, modelType = None, modelVal = None,
           updateBatchSize = 100\<rparr>] 0 (PtrStruct User_type (User_fields [] ''John'' ''j@x'' 30)) =
     Inr ([\<lparr>conn = \<lparr>client = 0, transaction = None\<rparr>, modelType = None, modelVal = None,
            updateBatchSize = 100\<rparr>,
           \<lparr>conn = \<lparr>client = 0, transaction = None\<rparr>, modelType = Some User_type,
            modelVal = Some User_type, updateBatchSize = 100\<rparr>], 1) \<and>
   Model [\<lparr>conn = \<lparr>client = 0, transaction = None\<rparr>, modelType = None, modelVal = None,
           updateBatchSize = 100\<rparr>] 0 (NilPtrStruct Example_type) =
     Inr ([\<lparr>conn = \<lparr>client = 0, transaction = None\<rparr>, modelType = None, modelVal = None,
            updateBatchSize = 100\<rparr>,
           \<lparr>conn = \<lparr>client = 0, transaction = None\<rparr>, modelType = Some Example_type,
            modelVal = Some Example_type, updateBatchSize = 100\<rparr>], 1)"
  using Model_panics_exactly_on_non_structs
    [of "[\<lparr>conn = \<lparr>client = 0, transaction = None\<rparr>, modelType = None, modelVal = None,
           updateBatchSize = 100\<rparr>]" 0 User_type "User_fields [] ''John'' ''j@x'' 30"]
    Model_panics_exactly_on_non_structs
    [of "[\<lparr>conn = \<lparr>client = 0, transaction = None\<rparr>, modelType = None, modelVal = None,
           updateBatchSize = 100\<rparr>]" 0 Example_type "[]"]
  by simp

section \<open>Query builder: theorems\<close>

lemma run_clauses_append:
  "run_clauses q (xs @ ys) =
     (case run_clauses q xs of (q', None) \<Rightarrow> run_clauses q' ys | (q', Some e) \<Rightarrow> (q', Some e))"
  by (induction xs arbitrary: q) (auto split: clause.splits option.splits sum.splits)

lemma run_clauses_filters: "run_clauses q (map CFilter ws) = apply_where q ws"
  by (induction ws arbitrary: q) (auto split: option.splits sum.splits)

lemma run_clauses_orders: "run_clauses q (map COrder os) = (apply_order q os, None)"
  by (induction os arbitrary: q) auto

lemma run_clauses_spec:
  "run_clauses q (spec_clauses s) =
     (case apply_where q (qWhere s) of
        (q1, Some e) \<Rightarrow> (q1, Some e)
      | (q1, None) \<Rightarrow> (apply_limit (apply_order q1 (qOrderBy s)) (qLimit s), None))"
  by (simp add: spec_clauses_def run_clauses_append run_clauses_filters run_clauses_orders
      apply_limit_def split: prod.splits option.splits)

lemma ApplyQueries_run_clauses: "ApplyQueries q specs = run_clauses q (all_clauses specs)"
proof (induction specs arbitrary: q)
  case Nil
  show ?case by (simp add: all_clauses_def)
next
  case (Cons s specs)
  have "all_clauses (s # specs) = spec_clauses s @ all_clauses specs"
    by (simp add: all_clauses_def)
  then show ?case
    using Cons.IH by (simp add: run_clauses_append run_clauses_spec split: prod.splits option.splits)
qed

lemma run_clauses_resolving:
  "\<forall>c\<in>set cs. resolves c \<Longrightarrow>
   run_clauses q cs = (q\<lparr>q_ops := q_ops q @ map clause_op cs\<rparr>, None)"
proof (induction cs arbitrary: q)
  case Nil
  show ?case by simp
next
  case (Cons c cs)
  then have IH: "\<And>q'. run_clauses q' cs = (q'\<lparr>q_ops := q_ops q' @ map clause_op cs\<rparr>, None)"
    by simp
  have r: "resolves c" using Cons.prems by simp
  have "run_clauses q (c # cs) = run_clauses (add_op q (clause_op c)) cs"
    using r by (cases c) (auto split: option.splits sum.splits)
  then show ?case by (simp add: IH add_op_def)
qed

lemma run_clauses_failing:
  "\<forall>c\<in>set pre. resolves c \<Longrightarrow> wValueProvider w = Some (Inl e) \<Longrightarrow>
   run_clauses q (pre @ CFilter w # post) =
     (q\<lparr>q_ops := q_ops q @ map clause_op pre\<rparr>,
      Some (Err (''failed to get value for field '' @ wField w @ '': '' @ e)))"
  by (simp add: run_clauses_append run_clauses_resolving)

text \<open>
  C7. \<open>ApplyQueries\<close> adds the clauses in the order the specification gives: the
  specifications in their given order, within each the filters, then the order clauses,
  then the limit when it is greater than zero and not the sentinel. When every value
  provider resolves, the query returned is the base query with exactly these clauses
  added, and no error. When a filter's provider fails, the call returns the error that
  names that filter's field, and the query holds only the clauses before it: no later
  clause is applied.
\<close>

theorem ApplyQueries_in_listed_order:
  "((\<forall>c\<in>set (all_clauses specs). resolves c) \<longrightarrow>
      ApplyQueries q specs = (q\<lparr>q_ops := q_ops q @ map clause_op (all_clauses specs)\<rparr>, None)) \<and>
   (all_clauses specs = pre @ CFilter w # post \<and> (\<forall>c\<in>set pre. resolves c) \<and>
    wValueProvider w = Some (Inl e) \<longrightarrow>
      ApplyQueries q specs =
        (q\<lparr>q_ops := q_ops q @ map clause_op pre\<rparr>,
         Some (Err (''failed to get value for field '' @ wField w @ '': '' @ e))))"
proof (intro conjI impI)
  assume "\<forall>c\<in>set (all_clauses specs). resolves c"
  then show "ApplyQueries q specs =
      (q\<lparr>q_ops := q_ops q @ map clause_op (all_clauses specs)\<rparr>, None)"
    by (simp add: ApplyQueries_run_clauses run_clauses_resolving)
next
  assume a: "all_clauses specs = pre @ CFilter w # post \<and> (\<forall>c\<in>set pre. resolves c) \<and>
    wValueProvider w = Some (Inl e)"
  then have "run_clauses q (all_clauses specs) =
      (q\<lparr>q_ops := q_ops q @ map clause_op pre\<rparr>,
       Some (Err (''failed to get value for field '' @ wField w @ '': '' @ e)))"
    using run_clauses_failing[of pre w e q post] by simp
  then show "ApplyQueries q specs =
      (q\<lparr>q_ops := q_ops q @ map clause_op pre\<rparr>,
       Some (Err (''failed to get value for field '' @ wField w @ '': '' @ e)))"
    by (simp add: ApplyQueries_run_clauses)
qed

theorem ApplyQueries_in_listed_order_witness:
  "ApplyQueries users_query
     [\<lparr>qWhere = [age_filter, cursor_filter (Some (Inr (VInt 7)))], qOrderBy = [by_age], qLimit = 5\<rparr>,
      \<lparr>qWhere = [age_filter], qOrderBy = [], qLimit = - 1\<rparr>,
      \<lparr>qWhere = [], qOrderBy = [by_age], qLimit = 0\<rparr>] =
     (\<lparr>q_collection = ''users'',
       q_ops = [OpWhere ''age'' ''>'' (VInt 30), OpWhere ''cursor'' ''>='' (VInt 7),
                OpOrderBy ''age'' Desc, OpLimit 5, OpWhere ''age'' ''>'' (VInt 30),
                OpOrderBy ''age'' Desc]\<rparr>, None) \<and>
   ApplyQueries users_query
     [\<lparr>qWhere = [age_filter], qOrderBy = [by_age], qLimit = 5\<rparr>,
      \<lparr>qWhere = [age_filter, cursor_filter (Some (Inl ''timeout'')), age_filter],
       qOrderBy = [by_age], qLimit = 3\<rparr>] =
     (\<lparr>q_collection = ''users'',
       q_ops = [OpWhere ''age'' ''>'' (VInt 30), OpOrderBy ''age'' Desc, OpLimit 5,
                OpWhere ''age'' ''>'' (VInt 30)]\<rparr>,
      Some (Err ''failed to get value for field cursor: timeout''))"
proof -
  let ?ok = "[\<lparr>qWhere = [age_filter, cursor_filter (Some (Inr (VInt 7)))], qOrderBy = [by_age], qLimit = 5\<rparr>,
      \<lparr>qWhere = [age_filter], qOrderBy = [], qLimit = - 1\<rparr>,
      \<lparr>qWhere = [], qOrderBy = [by_age], qLimit = 0\<rparr>]"
  let ?bad = "[\<lparr>qWhere = [age_filter], qOrderBy = [by_age], qLimit = 5\<rparr>,
      \<lparr>qWhere = [age_filter, cursor_filter (Some (Inl ''timeout'')), age_filter],
       qOrderBy = [by_age], qLimit = 3\<rparr>]"
  let ?pre = "[CFilter age_filter, COrder by_age, CLimit 5, CFilter age_filter]"
  let ?post = "[CFilter age_filter, COrder by_age, CLimit 3]"
  have ok: "all_clauses ?ok =
      [CFilter age_filter, CFilter (cursor_filter (Some (Inr (VInt 7)))), COrder by_age, CLimit 5,
       CFilter age_filter, COrder by_age]"
    by (simp add: all_clauses_def spec_clauses_def QueryLimitUnlimited_def)
  have bad: "all_clauses ?bad = ?pre @ CFilter (cursor_filter (Some (Inl ''timeout''))) # ?post"
    by (simp add: all_clauses_def spec_clauses_def QueryLimitUnlimited_def)
  have r: "\<forall>c\<in>set (all_clauses ?ok). resolves c"
    unfolding ok by (simp add: age_filter_def cursor_filter_def)
  have rpre: "\<forall>c\<in>set ?pre. resolves c"
    by (simp add: age_filter_def)
  have prov: "wValueProvider (cursor_filter (Some (Inl ''timeout''))) = Some (Inl ''timeout'')"
    by (simp add: cursor_filter_def)
  note 1 = ApplyQueries_in_listed_order[THEN conjunct1, THEN mp, OF r, of users_query]
  note 2 = ApplyQueries_in_listed_order[THEN conjunct2, THEN mp,
      OF conjI[OF bad conjI[OF rpre prov]], of users_query]
  show ?thesis
    unfolding 1 2 ok
    by (simp add: users_query_def collection_query_def age_filter_def cursor_filter_def
        by_age_def)
qed

section \<open>Save: theorems\<close>

lemma Model_live:
  "db < length h \<Longrightarrow> struct_type_of model = Some t \<Longrightarrow>
   Model h db model = Inr (h @ [(h ! db)\<lparr>modelType := Some t, modelVal := Some t\<rparr>], length h)"
  by (cases model) (simp_all add: Model_def value_type_def struct_type_of_def deref_def)

lemma CollectionName_bound:
  "collection_method t \<noteq> NamedStringMethod \<Longrightarrow>
   \<exists>colName. CollectionName (d\<lparr>modelType := Some t, modelVal := Some t\<rparr>) = Inr colName"
  by (simp add: CollectionName_def split: cmethod.splits)

lemma collect_updates_absent:
  "find (\<lambda>f. data f = None) names = Some field \<Longrightarrow>
   collect_updates data names acc = Inl (Err (''field '' @ field @ '' not found in model data''))"
  by (induction names arbitrary: acc) (auto split: option.splits if_splits)


lemma to_lower_User: "map to_lower ''User'' = ''user''"
  by code_simp


lemma CollectionName_User:
  "CollectionName (d\<lparr>modelType := Some User_type, modelVal := Some User_type\<rparr>) = Inr ''users''"
proof -
  have "CollectionName (d\<lparr>modelType := Some User_type, modelVal := Some User_type\<rparr>) =
      Inr (map to_lower ''User'' @ ''s'')"
    by (simp add: CollectionName_def User_type_def del: list.map)
  then show ?thesis unfolding to_lower_User by simp
qed



text \<open>
  C8. A call of \<open>Save\<close> with a non-empty field list, on a live orchestrator and a
  record (a struct, by value or by pointer) whose collection name resolves and whose
  field mapping is \<open>data\<close>: when the identifier is empty it returns the
  error \<open>cannot update fields on a record with no ID\<close>; when the identifier is not
  empty and a listed name is absent from the mapping it returns the error that names
  the first such name. In both cases, and when both hold, the call fails and the log of
  external calls is returned as it was: nothing was written.
\<close>

theorem Save_partial_fails_without_write:
  assumes nonempty: "fieldsToSave \<noteq> []"
    and live: "db < length h"
    and struct: "model = PtrStruct t fs \<or> model = Struct t fs"
    and named: "collection_method t \<noteq> NamedStringMethod"
    and mapping: "StructToMap model = Inr data"
  shows "(struct_ID fs = Inr [] \<longrightarrow>
            Save E h db lg model fieldsToSave =
              (lg, model, Some (Err ''cannot update fields on a record with no ID''))) \<and>
         (\<forall>ident. struct_ID fs = Inr ident \<and> ident \<noteq> [] \<longrightarrow>
            (\<forall>field. find (\<lambda>f. data f = None) fieldsToSave = Some field \<longrightarrow>
               Save E h db lg model fieldsToSave =
                 (lg, model, Some (Err (''field '' @ field @ '' not found in model data''))))) \<and>
         (struct_ID fs = Inr [] \<or>
          (\<exists>ident. struct_ID fs = Inr ident) \<and> (\<exists>field\<in>set fieldsToSave. data field = None) \<longrightarrow>
            (\<exists>msg. Save E h db lg model fieldsToSave = (lg, model, Some (Err msg))))"
proof -
  let ?d = "(h ! db)\<lparr>modelType := Some t, modelVal := Some t\<rparr>"
  have st: "struct_type_of model = Some t" using struct by (auto simp: struct_type_of_def)
  have gid: "GetID model = struct_ID fs" using struct by (auto simp: GetID_def indirect_def)
  obtain colName where col: "CollectionName ?d = Inr colName"
    using CollectionName_bound[OF named, where d="h ! db"] by blast
  have body: "Save E h db lg model fieldsToSave =
      (case save_write E ?d lg colName ident data fieldsToSave of
         (lg', r) \<Rightarrow> (lg', model, r))" if "struct_ID fs = Inr ident" for ident
    using nonempty that
    by (simp add: Save_def Model_live[OF live st] save_body_def col gid mapping)
  have no_id: "struct_ID fs = Inr [] \<Longrightarrow> Save E h db lg model fieldsToSave =
        (lg, model, Some (Err ''cannot update fields on a record with no ID''))"
    using nonempty by (simp add: body save_write_def)
  have absent: "\<And>ident field. struct_ID fs = Inr ident \<Longrightarrow> ident \<noteq> [] \<Longrightarrow>
      find (\<lambda>f. data f = None) fieldsToSave = Some field \<Longrightarrow>
      Save E h db lg model fieldsToSave =
        (lg, model, Some (Err (''field '' @ field @ '' not found in model data'')))"
    using nonempty by (simp add: body save_write_def collect_updates_absent)
  have either: "\<exists>msg. Save E h db lg model fieldsToSave = (lg, model, Some (Err msg))"
    if c: "struct_ID fs = Inr [] \<or>
           (\<exists>ident. struct_ID fs = Inr ident) \<and> (\<exists>field\<in>set fieldsToSave. data field = None)"
  proof (cases "struct_ID fs = Inr []")
    case True
    then show ?thesis using no_id by blast
  next
    case False
    with c obtain ident where i: "struct_ID fs = Inr ident" "ident \<noteq> []"
      and "\<exists>field\<in>set fieldsToSave. data field = None" by auto
    then have "find (\<lambda>f. data f = None) fieldsToSave \<noteq> None" by (auto simp: find_None_iff)
    then obtain field where "find (\<lambda>f. data f = None) fieldsToSave = Some field" by blast
    then show ?thesis using absent[OF i] by blast
  qed
  show ?thesis using no_id absent either by blast
qed

theorem Save_partial_fails_without_write_witness:
  "Save (demo_env []) (fresh_db None) 0 []
     (PtrStruct User_type (User_fields [] ''John'' ''j@x'' 30)) [''name''] =
     ([], PtrStruct User_type (User_fields [] ''John'' ''j@x'' 30),
      Some (Err ''cannot update fields on a record with no ID'')) \<and>
   Save (demo_env []) (fresh_db None) 0 []
     (PtrStruct User_type (User_fields ''u1'' ''John'' ''j@x'' 30)) [''name'', ''bogus'', ''age''] =
     ([], PtrStruct User_type (User_fields ''u1'' ''John'' ''j@x'' 30),
      Some (Err ''field bogus not found in model data''))"
proof -
  let ?data = "Map.empty(''name'' \<mapsto> VString ''John'', ''email'' \<mapsto> VString ''j@x'',
                         ''age'' \<mapsto> VInt 30)"
  have live: "0 < length (fresh_db None)" by (simp add: fresh_db_def New_def)
  have m0: "StructToMap (PtrStruct User_type (User_fields [] ''John'' ''j@x'' 30)) = Inr ?data"
    by (simp add: StructToMap_def indirect_def User_fields_def)
  have m1: "StructToMap (PtrStruct User_type (User_fields ''u1'' ''John'' ''j@x'' 30)) = Inr ?data"
    by (simp add: StructToMap_def indirect_def User_fields_def)
  have id0: "struct_ID (User_fields [] ''John'' ''j@x'' 30) = Inr []"
    by (simp add: struct_ID_def FieldByName_User)
  have id1: "struct_ID (User_fields ''u1'' ''John'' ''j@x'' 30) = Inr ''u1'' \<and> ''u1'' \<noteq> []"
    by (simp add: struct_ID_def FieldByName_User)
  have absent: "find (\<lambda>f. ?data f = None) [''name'', ''bogus'', ''age''] = Some ''bogus''"
    by simp
  have ne0: "[''name''] \<noteq> []" and ne1: "[''name'', ''bogus'', ''age''] \<noteq> []" by simp_all
  have nm: "collection_method User_type \<noteq> NamedStringMethod" by (simp add: User_type_def)
  note a = Save_partial_fails_without_write[OF ne0 live disjI1[OF refl] nm m0,
      THEN conjunct1, THEN mp, OF id0]
  note b = Save_partial_fails_without_write[OF ne1 live disjI1[OF refl] nm m1,
      THEN conjunct2, THEN conjunct1, THEN spec, THEN mp, OF id1, THEN spec, THEN mp, OF absent]
  show ?thesis using a b by simp
qed






section \<open>FindAll: theorems\<close>

lemma append_docs_appends:
  "append_docs E t docs acc = Inr r \<Longrightarrow>
   \<exists>decoded. r = acc @ decoded \<and> map (decode_doc E t) docs = map Inr decoded"
proof (induction docs arbitrary: acc)
  case Nil
  then show ?case by simp
next
  case (Cons dc docs)
  from Cons.prems obtain el where el: "decode_doc E t dc = Inr el"
    and rest: "append_docs E t docs (acc @ [el]) = Inr r"
    by (auto split: sum.splits)
  from Cons.IH[OF rest] obtain decoded where
    "r = (acc @ [el]) @ decoded" "map (decode_doc E t) docs = map Inr decoded" by blast
  then have "r = acc @ (el # decoded) \<and> map (decode_doc E t) (dc # docs) = map Inr (el # decoded)"
    using el by simp
  then show ?case by blast
qed

text \<open>
  C3, as the code has it. When \<open>FindAll\<close> succeeds on a destination that points to a
  slice, it has made one read; the destination afterwards holds the elements it held
  before, followed by the decoded documents the store returned, in the order the store
  returned them. Only on an empty destination is the result exactly the decoded
  documents.
\<close>

theorem FindAll_appends_to_destination:
  assumes "FindAll E h db lg queries (DestPtrSlice t elems) = (lg', dst', None)"
  shows "\<exists>ev docs decoded.
           lg' = lg @ [ev] \<and> read_result E lg ev = Inr docs \<and>
           map (decode_doc E t) docs = map Inr decoded \<and>
           dst' = DestPtrSlice t (elems @ decoded)"
proof -
  let ?m = "PtrStruct t (zero_fields t)"
  have st: "struct_type_of ?m = Some t" by (simp add: struct_type_of_def)
  have live: "db < length h"
  proof (rule ccontr)
    assume "\<not> db < length h"
    then have "Model h db ?m = Inl (Panic ''runtime error: invalid memory address or nil pointer dereference'')"
      by (simp add: Model_def value_type_def deref_def)
    then show False using assms by (simp add: FindAll_def find_all_bound_def)
  qed
  let ?d = "(h ! db)\<lparr>modelType := Some t, modelVal := Some t\<rparr>"
  have body: "find_all_body E ?d lg queries (DestPtrSlice t elems) = (lg', dst', None)"
    using assms by (simp add: FindAll_def find_all_bound_def Model_live[OF live st])
  obtain colName where col: "CollectionName ?d = Inr colName"
    using body by (cases "CollectionName ?d") (simp_all add: find_all_body_def)
  obtain q r where aq: "(if queries \<noteq> [] then ApplyQueries (collection_query colName) queries
            else (collection_query colName, None)) = (q, r)"
    by (cases "(if queries \<noteq> [] then ApplyQueries (collection_query colName) queries
            else (collection_query colName, None))") 
  have rnone: "r = None" using body aq
    by (cases r) (simp_all add: find_all_body_def col)
  let ?ev = "if HasTransaction (conn ?d) then EvTxDocuments q else EvDocuments q"
  from body aq rnone obtain docs where docs: "read_result E lg ?ev = Inr docs"
    by (cases "read_result E lg ?ev") (simp_all add: find_all_body_def col Let_def)
  from body aq rnone docs obtain sliceVal where sl: "append_docs E t docs elems = Inr sliceVal"
    by (cases "append_docs E t docs elems") (simp_all add: find_all_body_def col Let_def)
  have res: "lg' = lg @ [?ev]" "dst' = DestPtrSlice t sliceVal"
    using body aq rnone docs sl by (simp_all add: find_all_body_def col Let_def)
  from append_docs_appends[OF sl] obtain decoded where
    dec: "sliceVal = elems @ decoded" "map (decode_doc E t) docs = map Inr decoded" by blast
  show ?thesis using res docs dec by blast
qed


lemma decode_user_doc:
  "decode_doc (demo_env ds) User_type (user_doc i n a) = Inr (User_fields i n [] a)"
  by (simp add: decode_doc_def demo_env_def decode_by_tag_def User_type_def User_fields_def
      user_doc_def SetIDField_def set_id_fields_def FieldByName_def set_fval_def fields_of_def)

lemma FindAll_demo:
  "FindAll (demo_env ds) (fresh_db None) 0 [] [] (DestPtrSlice User_type elems) =
     (case append_docs (demo_env ds) User_type ds elems of
        Inl e \<Rightarrow> ([EvDocuments users_query], DestPtrSlice User_type elems, Some e)
      | Inr sliceVal \<Rightarrow> ([EvDocuments users_query], DestPtrSlice User_type sliceVal, None))"
proof -
  have live: "0 < length (fresh_db None)" by (simp add: fresh_db_def New_def)
  have st: "struct_type_of (PtrStruct User_type (zero_fields User_type)) = Some User_type"
    by (simp add: struct_type_of_def)
  have tx: "\<not> HasTransaction (conn (fresh_db None ! 0))"
    by (simp add: HasTransaction_def fresh_db_def New_def)
  have rd: "read_result (demo_env ds) [] (EvDocuments (collection_query ''users'')) = Inr ds"
    by (simp add: demo_env_def collection_query_def run_ops_def)
  show ?thesis
    by (simp add: FindAll_def find_all_bound_def Model_live[OF live st] find_all_body_def
        CollectionName_User tx rd users_query_def split: sum.splits)
qed

theorem FindAll_appends_to_destination_witness:
  "FindAll (demo_env [user_doc ''d1'' ''Ann'' 31, user_doc ''d2'' ''Bob'' 40]) (fresh_db None) 0 [] []
     (DestPtrSlice User_type [User_fields ''d0'' ''Old'' ''o@x'' 1]) =
     ([EvDocuments users_query],
      DestPtrSlice User_type
        [User_fields ''d0'' ''Old'' ''o@x'' 1, User_fields ''d1'' ''Ann'' [] 31,
         User_fields ''d2'' ''Bob'' [] 40], None) \<and>
   (\<exists>ev docs decoded.
      [EvDocuments users_query] = [] @ [ev] \<and>
      read_result (demo_env [user_doc ''d1'' ''Ann'' 31, user_doc ''d2'' ''Bob'' 40]) [] ev = Inr docs \<and>
      map (decode_doc (demo_env [user_doc ''d1'' ''Ann'' 31, user_doc ''d2'' ''Bob'' 40]) User_type) docs =
        map Inr decoded \<and>
      DestPtrSlice User_type
        [User_fields ''d0'' ''Old'' ''o@x'' 1, User_fields ''d1'' ''Ann'' [] 31,
         User_fields ''d2'' ''Bob'' [] 40] =
        DestPtrSlice User_type ([User_fields ''d0'' ''Old'' ''o@x'' 1] @ decoded))"
proof -
  have run: "FindAll (demo_env [user_doc ''d1'' ''Ann'' 31, user_doc ''d2'' ''Bob'' 40]) (fresh_db None) 0 [] []
     (DestPtrSlice User_type [User_fields ''d0'' ''Old'' ''o@x'' 1]) =
     ([EvDocuments users_query],
      DestPtrSlice User_type
        [User_fields ''d0'' ''Old'' ''o@x'' 1, User_fields ''d1'' ''Ann'' [] 31,
         User_fields ''d2'' ''Bob'' [] 40], None)"
    by (simp add: FindAll_demo decode_user_doc)
  show ?thesis using run FindAll_appends_to_destination[OF run] by blast
qed

text \<open>
  C3 as stated fails: on a destination that already holds one element, with a store that
  returns one document, the call succeeds and the destination holds two elements, the
  old one first; it is not the slice of the decoded documents alone.
\<close>

theorem FindAll_keeps_old_elements_counterexample:
  "FindAll (demo_env [user_doc ''d1'' ''Ann'' 31]) (fresh_db None) 0 [] []
     (DestPtrSlice User_type [User_fields ''d0'' ''Old'' ''o@x'' 1]) =
     ([EvDocuments users_query],
      DestPtrSlice User_type [User_fields ''d0'' ''Old'' ''o@x'' 1, User_fields ''d1'' ''Ann'' [] 31],
      None) \<and>
   map (decode_doc (demo_env [user_doc ''d1'' ''Ann'' 31]) User_type) [user_doc ''d1'' ''Ann'' 31] =
     [Inr (User_fields ''d1'' ''Ann'' [] 31)] \<and>
   DestPtrSlice User_type [User_fields ''d0'' ''Old'' ''o@x'' 1, User_fields ''d1'' ''Ann'' [] 31] \<noteq>
     DestPtrSlice User_type [User_fields ''d1'' ''Ann'' [] 31]"
  by (simp add: FindAll_demo decode_user_doc)

section \<open>Update: theorems\<close>

lemma update_loop_in_transaction:
  "HasTransaction (conn d) \<Longrightarrow>
   update_loop E d q updates None lg =
     (let ev = EvDocuments (add_op q (OpLimit (updateBatchSize d))) in
      Some (lg @ [ev],
            case read_result E lg ev of
              Inl e \<Rightarrow> Some (Err (''failed to retrieve documents: '' @ e))
            | Inr docs \<Rightarrow>
                if docs = [] then None
                else Some (Err ''transactional batch updates are not supported'')))"
  by (subst update_loop.simps) (simp add: Let_def split: sum.splits)

text \<open>
  C2, as the code has it. An \<open>Update\<close> by query (empty identifier, a non-empty first
  where-specification) on a live orchestrator whose connection has a transaction, for a
  record whose collection name resolves, never writes. When a value provider fails it returns that error with no external call.
  Otherwise it issues the first page query, outside the transaction, and only then
  looks at the transaction: a failed read is reported, a page with at least one document
  gives the error \<open>transactional batch updates are not supported\<close> before any commit,
  and an empty page makes the call return nil.
\<close>

theorem Update_by_query_in_transaction:
  assumes live: "db < length h"
    and struct: "struct_type_of model = Some t"
    and named: "collection_method t \<noteq> NamedStringMethod"
    and noid: "GetID model = Inr []"
    and wh: "wh = w0 # ws" "w0 \<noteq> []"
    and tx: "HasTransaction (conn (h ! db))"
  shows "\<exists>colName q r lg' res.
           CollectionName ((h ! db)\<lparr>modelType := Some t, modelVal := Some t\<rparr>) = Inr colName \<and>
           ApplyQueries (collection_query colName) w0 = (q, r) \<and>
           Update E h db lg model updates wh = Some (lg', res) \<and>
           filter is_write lg' = filter is_write lg \<and>
           (lg', res) =
             (case r of
                Some e \<Rightarrow> (lg, Some e)
              | None \<Rightarrow>
                  (let ev = EvDocuments (add_op q (OpLimit (updateBatchSize (h ! db)))) in
                   (lg @ [ev],
                    case read_result E lg ev of
                      Inl e \<Rightarrow> Some (Err (''failed to retrieve documents: '' @ e))
                    | Inr docs \<Rightarrow>
                        if docs = [] then None
                        else Some (Err ''transactional batch updates are not supported''))))"
proof -
  let ?d = "(h ! db)\<lparr>modelType := Some t, modelVal := Some t\<rparr>"
  obtain colName where col: "CollectionName ?d = Inr colName"
    using CollectionName_bound[OF named, where d="h ! db"] by blast
  obtain q r where aq: "ApplyQueries (collection_query colName) w0 = (q, r)"
    by (cases "ApplyQueries (collection_query colName) w0")
  have txd: "HasTransaction (conn ?d)" using tx by (simp add: HasTransaction_def)
  let ?ev = "EvDocuments (add_op q (OpLimit (updateBatchSize (h ! db))))"
  let ?res = "case read_result E lg ?ev of
                Inl e \<Rightarrow> Some (Err (''failed to retrieve documents: '' @ e))
              | Inr docs \<Rightarrow>
                  if docs = [] then None
                  else Some (Err ''transactional batch updates are not supported'')"
  have body: "Update E h db lg model updates wh =
      (case r of Some e \<Rightarrow> Some (lg, Some e) | None \<Rightarrow> Some (lg @ [?ev], ?res))"
    using wh
    by (simp add: Update_def Model_live[OF live struct] update_body_def col noid aq
        update_loop_in_transaction[OF txd] Let_def split: option.splits)
  show ?thesis
  proof (cases r)
    case None
    have w: "filter is_write (lg @ [?ev]) = filter is_write lg" by (simp add: is_write_def)
    show ?thesis
      by (intro exI[of _ colName] exI[of _ q] exI[of _ r] exI[of _ "lg @ [?ev]"] exI[of _ ?res]
          conjI col aq w) (simp_all add: body None Let_def)
  next
    case (Some e)
    show ?thesis
      by (intro exI[of _ colName] exI[of _ q] exI[of _ r] exI[of _ lg] exI[of _ "Some e"]
          conjI col aq) (simp_all add: body Some)
  qed
qed


theorem Update_by_query_in_transaction_witness:
  "Update (demo_env [user_doc ''d1'' ''Ann'' 31]) (fresh_db (Some 7)) 0 []
     (PtrStruct User_type (User_fields [] [] [] 0)) [\<lparr>uPath = ''age'', uValue = VInt 50\<rparr>]
     [[\<lparr>qWhere = [age_filter], qOrderBy = [], qLimit = 0\<rparr>]] =
   Some ([EvDocuments \<lparr>q_collection = ''users'',
                          q_ops = [OpWhere ''age'' ''>'' (VInt 30), OpLimit 100]\<rparr>],
         Some (Err ''transactional batch updates are not supported''))"
proof -
  let ?E = "demo_env [user_doc ''d1'' ''Ann'' 31]"
  let ?w0 = "[\<lparr>qWhere = [age_filter], qOrderBy = [], qLimit = 0\<rparr>]"
  let ?q = "\<lparr>q_collection = ''users'', q_ops = [OpWhere ''age'' ''>'' (VInt 30)]\<rparr>"
  have live: "0 < length (fresh_db (Some 7))" by (simp add: fresh_db_def New_def)
  have st: "struct_type_of (PtrStruct User_type (User_fields [] [] [] 0)) = Some User_type"
    by (simp add: struct_type_of_def)
  have noid: "GetID (PtrStruct User_type (User_fields [] [] [] 0)) = Inr []"
    by (simp add: GetID_def indirect_def struct_ID_def FieldByName_User)
  have tx: "HasTransaction (conn (fresh_db (Some 7) ! 0))"
    by (simp add: HasTransaction_def fresh_db_def New_def)
  have bs: "updateBatchSize (fresh_db (Some 7) ! 0) = 100" by (simp add: fresh_db_def New_def)
  have aq: "ApplyQueries (collection_query ''users'') ?w0 = (?q, None)"
    by (simp add: collection_query_def age_filter_def add_op_def apply_limit_def)
  have rd: "read_result ?E [] (EvDocuments (add_op ?q (OpLimit 100))) = Inr [user_doc ''d1'' ''Ann'' 31]"
    by (simp add: demo_env_def add_op_def run_ops_def)
  have nm: "collection_method User_type \<noteq> NamedStringMethod" by (simp add: User_type_def)
  from Update_by_query_in_transaction[OF live st nm noid refl _ tx,
      of ?w0 ?E "[]" "[\<lparr>uPath = ''age'', uValue = VInt 50\<rparr>]" "[]"]
  obtain colName q r lg' res where
    f: "CollectionName ((fresh_db (Some 7) ! 0)\<lparr>modelType := Some User_type,
          modelVal := Some User_type\<rparr>) = Inr colName"
       "ApplyQueries (collection_query colName) ?w0 = (q, r)"
       "Update ?E (fresh_db (Some 7)) 0 [] (PtrStruct User_type (User_fields [] [] [] 0))
          [\<lparr>uPath = ''age'', uValue = VInt 50\<rparr>] [?w0] = Some (lg', res)"
       "(lg', res) =
             (case r of
                Some e \<Rightarrow> ([], Some e)
              | None \<Rightarrow>
                  (let ev = EvDocuments (add_op q (OpLimit (updateBatchSize (fresh_db (Some 7) ! 0)))) in
                   ([] @ [ev],
                    case read_result ?E [] ev of
                      Inl e \<Rightarrow> Some (Err (''failed to retrieve documents: '' @ e))
                    | Inr docs \<Rightarrow>
                        if docs = [] then None
                        else Some (Err ''transactional batch updates are not supported''))))"
    by auto
  have c: "colName = ''users''" using f(1) by (simp add: CollectionName_User)
  have qr: "q = ?q" "r = None" using f(2) aq by (simp_all add: c)
  have "(lg', res) = ([EvDocuments (add_op ?q (OpLimit 100))],
                      Some (Err ''transactional batch updates are not supported''))"
    using f(4) by (simp add: qr bs rd Let_def)
  then show ?thesis using f(3) by (simp add: add_op_def)
qed

text \<open>
  C2 as stated fails: with a transaction active and a query that matches no document,
  the call performs an external read and then returns nil, not an error.
\<close>

theorem Update_in_transaction_no_match_counterexample:
  "Update (demo_env []) (fresh_db (Some 7)) 0 []
     (PtrStruct User_type (User_fields [] [] [] 0)) [\<lparr>uPath = ''age'', uValue = VInt 50\<rparr>]
     [[\<lparr>qWhere = [age_filter], qOrderBy = [], qLimit = 0\<rparr>]] =
   Some ([EvDocuments \<lparr>q_collection = ''users'',
                          q_ops = [OpWhere ''age'' ''>'' (VInt 30), OpLimit 100]\<rparr>],
         None)"
proof -
  have live: "0 < length (fresh_db (Some 7))" by (simp add: fresh_db_def New_def)
  have st: "struct_type_of (PtrStruct User_type (User_fields [] [] [] 0)) = Some User_type"
    by (simp add: struct_type_of_def)
  have noid: "GetID (PtrStruct User_type (User_fields [] [] [] 0)) = Inr []"
    by (simp add: GetID_def indirect_def struct_ID_def FieldByName_User)
  have tx: "HasTransaction (conn ((fresh_db (Some 7) ! 0)\<lparr>modelType := Some User_type,
      modelVal := Some User_type\<rparr>))"
    by (simp add: HasTransaction_def fresh_db_def New_def)
  have bs: "updateBatchSize (fresh_db (Some 7) ! 0) = 100" by (simp add: fresh_db_def New_def)
  show ?thesis
    by (simp add: Update_def Model_live[OF live st] update_body_def CollectionName_User noid
        update_loop_in_transaction[OF tx] collection_query_def age_filter_def add_op_def
        apply_limit_def bs demo_env_def run_ops_def)
qed













end
